theory Spec2Isabelle
  imports Complex_Main "HOL-Library.Word"
begin

unbundle bit_operations_syntax

section \<open>Buffers and errors\<close>

text \<open>
  A Node.js \<open>Buffer\<close> is a list of bytes; a byte is a natural number below 256.
  Reading an index beyond the end gives JavaScript's \<open>undefined\<close>, which the bitwise
  operators of the source coerce to 0. The 16-bit accessors throw a RangeError instead.
  Of the exceptions, \<open>NotConnected\<close> is the \<open>Error\<close> that \<open>subscribe\<close> constructs, \<open>JsError msg\<close>
  an \<open>Error\<close> object with message \<open>msg\<close> that \<open>emit\<close> throws back, and \<open>ListenerError\<close> whatever
  a listener throws.
\<close>

type_synonym byte = nat
type_synonym buffer = "byte list"

datatype error = RangeError | TypeError | NotConnected | JsError string | ListenerError

definition byteAt :: "buffer \<Rightarrow> nat \<Rightarrow> byte option" where
  "byteAt data i = (if i < length data then Some (data ! i) else None)"

definition toInt :: "byte option \<Rightarrow> nat" where
  "toInt v = (case v of None \<Rightarrow> 0 | Some b \<Rightarrow> b)"

definition readUInt16BE :: "buffer \<Rightarrow> nat \<Rightarrow> error + nat" where
  "readUInt16BE data offset =
     (if offset + 2 \<le> length data
      then Inr (data ! offset * 256 + data ! (offset + 1))
      else Inl RangeError)"

definition writeUInt16BE :: "nat \<Rightarrow> error + buffer" where
  "writeUInt16BE v = (if v \<le> 65535 then Inr [v div 256, v mod 256] else Inl RangeError)"

definition fromArray :: "nat list \<Rightarrow> buffer" where
  "fromArray xs = map (\<lambda>x. x mod 256) xs"

definition fromString :: "string \<Rightarrow> buffer" where
  "fromString s = map of_char s"

text \<open>
  \<open>data.toString('utf8', start, end)\<close>. A string is kept as its UTF-8 bytes, so decoding
  copies them; where the bytes are not valid UTF-8 the source substitutes U+FFFD, which
  the model does not follow.
\<close>

definition toString :: "buffer \<Rightarrow> nat \<Rightarrow> nat \<Rightarrow> string" where
  "toString data start end = map char_of (drop start (take end data))"

section \<open>The remaining-length field\<close>

text \<open>
  \<open>encodeRemainingLength\<close>: the do-while loop of the source, with the array
  \<open>encoded\<close> as accumulator.
\<close>

function encodeLoop :: "nat \<Rightarrow> nat list \<Rightarrow> nat list" where
  "encodeLoop num encoded =
     (let digit = num mod 128;
          num' = num div 128;
          digit' = (if num' > 0 then digit OR 128 else digit);
          encoded' = encoded @ [digit']
      in if num' > 0 then encodeLoop num' encoded' else encoded')"
  by pat_completeness auto
termination
  by (relation "measure fst") auto

definition encodeRemainingLength :: "nat \<Rightarrow> buffer" where
  "encodeRemainingLength len = fromArray (encodeLoop len [])"

text \<open>
  The decoding loop of \<open>parsePublishPacket\<close>:
  \<^verbatim>\<open>do { digit = data[offset++]; remainingLength += (digit & 127) * multiplier;
       multiplier *= 128; } while ((digit & 128) !== 0);\<close>
  It returns the decoded value and the offset after the last byte read. The source
  accumulates in a double, which is exact below \<open>2^53\<close>; the model accumulates in a natural
  number.
\<close>

function readRemainingLength :: "buffer \<Rightarrow> nat \<Rightarrow> nat \<Rightarrow> nat \<Rightarrow> nat \<times> nat" where
  "readRemainingLength data offset multiplier remainingLength =
     (let digit = toInt (byteAt data offset);
          remainingLength' = remainingLength + (digit AND 127) * multiplier
      in if digit AND 128 \<noteq> 0
         then readRemainingLength data (offset + 1) (multiplier * 128) remainingLength'
         else (remainingLength', offset + 1))"
  by pat_completeness auto
termination
  by (relation "measure (\<lambda>(data, offset, m, r). length data - offset)")
     (auto simp: toInt_def byteAt_def split: if_splits)

section \<open>Packet codec\<close>

record MQTTMessage =
  topic :: string
  payload :: buffer
  qos :: nat
  retain :: bool

text \<open>
  A decoded frame, as the object \<open>parsePacket\<close> returns: the return code of a CONNACK
  (\<open>data[3]\<close>, \<open>undefined\<close> on a short frame), the topic, payload, QoS and optional
  packet id of a PUBLISH, the packet id of a PUBACK or SUBACK, and the bare type name
  of every other frame.
\<close>

datatype packet =
    CONNACK "byte option"
  | PUBLISH string buffer nat "nat option"
  | PUBACK nat
  | SUBACK nat "byte option list"
  | OTHER string

definition packetTypes :: "nat \<Rightarrow> string" where
  "packetTypes t =
     (case map_of
        [(1, ''CONNECT''), (2, ''CONNACK''), (3, ''PUBLISH''), (4, ''PUBACK''),
         (5, ''PUBREC''), (6, ''PUBREL''), (7, ''PUBCOMP''), (8, ''SUBSCRIBE''),
         (9, ''SUBACK''), (12, ''PINGREQ''), (13, ''PINGRESP''), (14, ''DISCONNECT'')] t
      of Some name \<Rightarrow> name | None \<Rightarrow> ''UNKNOWN'')"

text \<open>
  \<open>parsePublishPacket\<close>. The source sets \<open>offset = 2\<close> before the remaining-length
  loop; the model starts the loop there as well. A topic is kept as its UTF-8 bytes.
\<close>

definition parsePublishPacket :: "buffer \<Rightarrow> error + packet" where
  "parsePublishPacket data =
     (let qos = drop_bit 1 (toInt (byteAt data 0)) AND 3;
          (remainingLength, offset) = readRemainingLength data 2 1 0
      in case readUInt16BE data offset of
           Inl e \<Rightarrow> Inl e
         | Inr topicLength \<Rightarrow>
             (let offset1 = offset + 2;
                  topic = toString data offset1 (offset1 + topicLength);
                  offset2 = offset1 + topicLength
              in if qos > 0
                 then (case readUInt16BE data offset2 of
                         Inl e \<Rightarrow> Inl e
                       | Inr packetId \<Rightarrow>
                           Inr (PUBLISH topic (drop (offset2 + 2) data) qos (Some packetId)))
                 else Inr (PUBLISH topic (drop offset2 data) qos None)))"

definition parsePacket :: "buffer \<Rightarrow> error + packet" where
  "parsePacket data =
     (let packetType = drop_bit 4 (toInt (byteAt data 0)) AND 15;
          type = packetTypes packetType
      in if type = ''CONNACK'' then Inr (CONNACK (byteAt data 3))
         else if type = ''PUBLISH'' then parsePublishPacket data
         else if type = ''PUBACK'' then
           (case readUInt16BE data 2 of
              Inl e \<Rightarrow> Inl e
            | Inr packetId \<Rightarrow> Inr (PUBACK packetId))
         else if type = ''SUBACK'' then
           (case readUInt16BE data 2 of
              Inl e \<Rightarrow> Inl e
            | Inr packetId \<Rightarrow> Inr (SUBACK packetId [byteAt data 4]))
         else Inr (OTHER type))"

text \<open>
  \<open>buildPublishPacket(message, packetId?)\<close>. The optional argument is \<open>None\<close> for
  \<open>undefined\<close>. The test \<open>message.qos > 0 && packetId\<close> is a truthiness test: it
  fails for \<open>undefined\<close> and for the number 0.
\<close>

definition truthyId :: "nat option \<Rightarrow> bool" where
  "truthyId packetId = (case packetId of None \<Rightarrow> False | Some n \<Rightarrow> n \<noteq> 0)"

definition buildPublishPacket :: "MQTTMessage \<Rightarrow> nat option \<Rightarrow> error + buffer" where
  "buildPublishPacket message packetId =
     (let topicBuf = fromString (topic message)
      in case writeUInt16BE (length topicBuf) of
           Inl e \<Rightarrow> Inl e
         | Inr topicLength \<Rightarrow>
             (case (if qos message > 0 \<and> truthyId packetId
                    then (case writeUInt16BE (toInt packetId) of
                            Inl e \<Rightarrow> Inl e
                          | Inr packetIdBuf \<Rightarrow> Inr (topicLength @ topicBuf @ packetIdBuf))
                    else Inr (topicLength @ topicBuf)) of
                Inl e \<Rightarrow> Inl e
              | Inr variableHeader \<Rightarrow>
                  (let remainingLength = length variableHeader + length (payload message);
                       remainingLengthBuf = encodeRemainingLength remainingLength;
                       fixedHeaderByte =
                         48 OR push_bit 1 (qos message) OR (if retain message then 1 else 0);
                       fixedHeader = fromArray [fixedHeaderByte] @ remainingLengthBuf
                   in Inr (fixedHeader @ variableHeader @ payload message))))"

definition buildSubscribePacket :: "nat \<Rightarrow> string \<Rightarrow> nat \<Rightarrow> error + buffer" where
  "buildSubscribePacket packetId topic' qos' =
     (let topicBuf = fromString topic'
      in case writeUInt16BE (length topicBuf) of
           Inl e \<Rightarrow> Inl e
         | Inr topicLength \<Rightarrow>
             (case writeUInt16BE packetId of
                Inl e \<Rightarrow> Inl e
              | Inr packetIdBuf \<Rightarrow>
                  (let payload = packetIdBuf @ topicLength @ topicBuf @ fromArray [qos'];
                       remainingLengthBuf = encodeRemainingLength (length payload);
                       fixedHeader = fromArray [130] @ remainingLengthBuf
                   in Inr (fixedHeader @ payload))))"

definition buildPubAckPacket :: "nat \<Rightarrow> buffer" where
  "buildPubAckPacket packetId =
     fromArray [64, 2, drop_bit 8 packetId AND 255, packetId AND 255]"

section \<open>The MQTT client\<close>

text \<open>
  The fields of class \<open>MQTTClient\<close> that the connection logic reads and writes, and
  what the client does to its surroundings:
  \<^item> \<open>ws\<close> is the current WebSocket (\<open>None\<close> for \<open>null\<close>), named by the serial number
    of its construction; \<open>sockets\<close> counts the sockets constructed so far and
    \<open>wsClosed\<close> lists those on which \<open>close()\<close> was called;
  \<^item> \<open>sent\<close> lists the frames handed to \<open>ws.send\<close>, in order;
  \<^item> \<open>emitted\<close> lists the \<open>connect\<close>, \<open>disconnect\<close> and \<open>error\<close> events passed to
    \<open>emit\<close>, in order;
  \<^item> \<open>errorListeners\<close> is what the \<open>EventEmitter\<close> the class extends holds for the event
    \<open>error\<close>: the registered listeners, in the order of their registration;
  \<^item> \<open>reconnectTimer\<close> and \<open>keepAliveTimer\<close> hold the delay of the pending timer
    (\<open>None\<close> for \<open>undefined\<close>);
  \<^item> \<open>promises\<close> holds the state of every promise \<open>sendPublish\<close> has created, a
    promise being named by its position; \<open>pendingAcks\<close> maps a packet id to the promise
    its stored callback resolves; \<open>ackTimers\<close> maps a promise to the packet id and
    delay of its running timeout;
  \<^item> \<open>unhandledRejections\<close> lists the reasons of the promises that were rejected with no
    handler attached, which Node.js reports as unhandled rejections of the process.
  A call to \<open>ws.send\<close> is taken not to throw: it does on a socket that has not opened yet,
  and the socket the client holds is taken to have opened. The listeners of \<open>connect\<close> and
  \<open>disconnect\<close> are taken to return. The 180-second timeout of \<open>connect()\<close> is not part of
  the model.

  A listener of \<open>error\<close> is registered by the caller with \<open>on\<close> or with \<open>once\<close> and either
  returns or throws when it is called; the facade \<open>PanindiganFCA\<close> registers with \<open>on\<close> a
  listener that passes the error to its own \<open>emit\<close>, which throws when the facade has no
  listener of \<open>error\<close>. \<open>OnError\<close> is the listener that \<open>connect()\<close> registers with \<open>once\<close> while
  it waits: it rejects the promise \<open>connect()\<close> awaits and returns.
\<close>

datatype emitted =
    EConnect
  | EDisconnect "(nat \<times> string) option"
  | EError string

datatype promise = Pending | Resolved | Rejected string

datatype ret = Void | Promise nat

datatype data = ABuffer buffer | AString string

datatype outcome = Returns | Throws

datatype listener = On outcome | Once outcome | OnError

record MQTTClient =
  ws :: "nat option"
  userId :: string
  connected :: bool
  connecting :: bool
  reconnectAttempts :: nat
  maxReconnectAttempts :: nat
  reconnectDelay :: nat
  reconnectTimer :: "nat option"
  keepAliveTimer :: "nat option"
  lastPacketId :: nat
  pendingAcks :: "nat \<rightharpoonup> nat"
  messageQueue :: "MQTTMessage list"
  sockets :: nat
  wsClosed :: "nat list"
  sent :: "buffer list"
  emitted :: "emitted list"
  promises :: "promise list"
  ackTimers :: "nat \<rightharpoonup> nat \<times> nat"
  errorListeners :: "listener list"
  unhandledRejections :: "string list"

definition keepalive :: nat where
  "keepalive = 60"

definition reconnectPeriod :: nat where
  "reconnectPeriod = 5000"

text \<open>The constructor, for the session of user \<open>uid\<close>.\<close>

definition newClient :: "string \<Rightarrow> MQTTClient" where
  "newClient uid =
     \<lparr> ws = None, userId = uid, connected = False, connecting = False,
       reconnectAttempts = 0, maxReconnectAttempts = 10, reconnectDelay = reconnectPeriod,
       reconnectTimer = None, keepAliveTimer = None, lastPacketId = 0,
       pendingAcks = Map.empty, messageQueue = [], sockets = 0, wsClosed = [],
       sent = [], emitted = [], promises = [], ackTimers = Map.empty,
       errorListeners = [], unhandledRejections = [] \<rparr>"

text \<open>\<open>on('error', listener)\<close> and \<open>once('error', listener)\<close>, as the caller uses them.\<close>

definition addListener :: "listener \<Rightarrow> MQTTClient \<Rightarrow> MQTTClient" where
  "addListener l s = s\<lparr>errorListeners := errorListeners s @ [l]\<rparr>"

text \<open>
  \<open>emit\<close> for the events \<open>connect\<close> and \<open>disconnect\<close>. When \<open>connect\<close> is emitted, the
  listener that each pending \<open>connect()\<close> has registered for it runs
  \<open>this.off('error', onError)\<close>.
\<close>

definition emit :: "emitted \<Rightarrow> MQTTClient \<Rightarrow> MQTTClient" where
  "emit e s = s\<lparr>emitted := emitted s @ [e]\<rparr>"

definition emitConnect :: "MQTTClient \<Rightarrow> MQTTClient" where
  "emitConnect s = (emit EConnect s)\<lparr>errorListeners := removeAll OnError (errorListeners s)\<rparr>"

text \<open>
  \<open>emit('error', new Error(message))\<close>. With no listener registered, \<open>emit\<close> throws the
  error it was given. Otherwise it calls the listeners registered at that moment, in
  order; a listener registered with \<open>once\<close> is removed just before it is called; what a
  listener throws leaves \<open>emit\<close>, and the listeners after it are not called.
\<close>

definition throwing :: "listener \<Rightarrow> bool" where
  "throwing l = (case l of On b \<Rightarrow> b = Throws | Once b \<Rightarrow> b = Throws | OnError \<Rightarrow> False)"

fun callListeners :: "listener list \<Rightarrow> MQTTClient \<Rightarrow> (error + unit) \<times> MQTTClient" where
  "callListeners [] s = (Inr (), s)"
| "callListeners (l # ls) s =
     (let s1 = (case l of
                  On b \<Rightarrow> s
                | Once b \<Rightarrow> s\<lparr>errorListeners := remove1 l (errorListeners s)\<rparr>
                | OnError \<Rightarrow> s\<lparr>errorListeners := remove1 l (errorListeners s)\<rparr>)
      in if throwing l then (Inl ListenerError, s1) else callListeners ls s1)"

definition emitError :: "string \<Rightarrow> MQTTClient \<Rightarrow> (error + unit) \<times> MQTTClient" where
  "emitError message s =
     (let s1 = emit (EError message) s
      in if errorListeners s1 = [] then (Inl (JsError message), s1)
         else callListeners (errorListeners s1) s1)"

text \<open>\<open>this.ws?.send(packet)\<close>: nothing happens when \<open>ws\<close> is \<open>null\<close>.\<close>

definition wsSend :: "buffer \<Rightarrow> MQTTClient \<Rightarrow> MQTTClient" where
  "wsSend packet s = (case ws s of None \<Rightarrow> s | Some w \<Rightarrow> s\<lparr>sent := sent s @ [packet]\<rparr>)"

definition getNextPacketId :: "MQTTClient \<Rightarrow> nat \<times> MQTTClient" where
  "getNextPacketId s =
     (let n = (lastPacketId s + 1) mod 65536 in (n, s\<lparr>lastPacketId := n\<rparr>))"

text \<open>
  \<open>sendPublish\<close> returns the promise that waits for the PUBACK, or nothing. An
  exception of \<open>buildPublishPacket\<close> leaves the advanced packet id behind.
\<close>

definition sendPublish :: "MQTTMessage \<Rightarrow> MQTTClient \<Rightarrow> (error + ret) \<times> MQTTClient" where
  "sendPublish message s =
     (let (packetId, s1) =
            (if qos message > 0
             then (let (n, s') = getNextPacketId s in (Some n, s'))
             else (None, s))
      in case buildPublishPacket message packetId of
           Inl e \<Rightarrow> (Inl e, s1)
         | Inr packet \<Rightarrow>
             (let s2 = wsSend packet s1
              in if qos message > 0 \<and> truthyId packetId
                 then (let p = length (promises s2);
                           n = toInt packetId
                       in (Inr (Promise p),
                           s2\<lparr>promises := promises s2 @ [Pending],
                              ackTimers := (ackTimers s2)(p \<mapsto> (n, 30000)),
                              pendingAcks := (pendingAcks s2)(n \<mapsto> p)\<rparr>))
                 else (Inr Void, s2)))"




text \<open>
  \<open>publish\<close> is declared \<open>void\<close>: it calls \<open>sendPublish\<close> as a statement and returns
  nothing, whatever that call returned.
\<close>

definition makeMessage :: "string \<Rightarrow> data \<Rightarrow> nat \<Rightarrow> bool \<Rightarrow> MQTTMessage" where
  "makeMessage topic' payload' qos' retain' =
     \<lparr> topic = topic',
       payload = (case payload' of ABuffer b \<Rightarrow> b | AString str \<Rightarrow> fromString str),
       qos = qos', retain = retain' \<rparr>"

definition publish ::
  "string \<Rightarrow> data \<Rightarrow> nat \<Rightarrow> bool \<Rightarrow> MQTTClient \<Rightarrow> (error + ret) \<times> MQTTClient" where
  "publish topic' payload' qos' retain' s =
     (let message = makeMessage topic' payload' qos' retain'
      in if \<not> connected s \<or> ws s = None
         then (Inr Void, s\<lparr>messageQueue := messageQueue s @ [message]\<rparr>)
         else (case sendPublish message s of
                 (Inl e, s') \<Rightarrow> (Inl e, s')
               | (Inr r, s') \<Rightarrow> (Inr Void, s')))"

definition subscribe :: "string \<Rightarrow> nat \<Rightarrow> MQTTClient \<Rightarrow> (error + unit) \<times> MQTTClient" where
  "subscribe topic' qos' s =
     (if \<not> connected s \<or> ws s = None then (Inl NotConnected, s)
      else (let (packetId, s1) = getNextPacketId s
            in case buildSubscribePacket packetId topic' qos' of
                 Inl e \<Rightarrow> (Inl e, s1)
               | Inr subscribePacket \<Rightarrow> (Inr (), wsSend subscribePacket s1)))"

definition topics :: "string \<Rightarrow> string list" where
  "topics uid =
     [''/t_ms'', ''/t_rtc'', ''/t_p'', ''/t_tn'', ''/t_graphql'', ''/t_messaging_events'',
      ''mqtt_c2b_'' @ uid,
      ''/t_sb'', ''/t_admin_text'', ''/t_presence'', ''/t_msg_body'', ''/t_delta'']"

text \<open>
  The loop of \<open>subscribeToTopics\<close>: each \<open>subscribe\<close> runs inside its own
  \<open>try\<close>/\<open>catch\<close>, so an exception is dropped and the loop goes on.
\<close>

fun subscribeLoop :: "string list \<Rightarrow> MQTTClient \<Rightarrow> MQTTClient" where
  "subscribeLoop [] s = s"
| "subscribeLoop (t # ts) s =
     (case subscribe t 1 s of
        (Inl e, s') \<Rightarrow> subscribeLoop ts s'
      | (Inr u, s') \<Rightarrow> subscribeLoop ts s')"

definition subscribeToTopics :: "MQTTClient \<Rightarrow> MQTTClient" where
  "subscribeToTopics s = subscribeLoop (topics (userId s)) s"

text \<open>
  \<open>processMessageQueue\<close>: \<open>while (this.messageQueue.length > 0 && this.connected)\<close>,
  taking the head of the queue with \<open>shift()\<close>. An exception of \<open>sendPublish\<close> leaves
  the loop.
\<close>

function processMessageQueue :: "MQTTClient \<Rightarrow> (error + unit) \<times> MQTTClient" where
  "processMessageQueue s =
     (if length (messageQueue s) > 0 \<and> connected s
      then (let message = hd (messageQueue s);
                s1 = s\<lparr>messageQueue := tl (messageQueue s)\<rparr>
            in case sendPublish message s1 of
                 (Inl e, s2) \<Rightarrow> (Inl e, s2)
               | (Inr r, s2) \<Rightarrow> processMessageQueue s2)
      else (Inr (), s))"
  by pat_completeness auto
termination
  by (relation "measure (\<lambda>s. length (messageQueue s))")
     (auto simp: sendPublish_def getNextPacketId_def wsSend_def Let_def
           split: if_splits sum.splits option.splits prod.splits)

definition startKeepAlive :: "MQTTClient \<Rightarrow> MQTTClient" where
  "startKeepAlive s = s\<lparr>keepAliveTimer := Some (keepalive * 1000)\<rparr>"

definition stopKeepAlive :: "MQTTClient \<Rightarrow> MQTTClient" where
  "stopKeepAlive s =
     (case keepAliveTimer s of None \<Rightarrow> s | Some t \<Rightarrow> s\<lparr>keepAliveTimer := None\<rparr>)"

definition sendPing :: "MQTTClient \<Rightarrow> MQTTClient" where
  "sendPing s = wsSend (fromArray [192, 0]) s"

definition sendDisconnect :: "MQTTClient \<Rightarrow> MQTTClient" where
  "sendDisconnect s = wsSend (fromArray [224, 0]) s"

definition scheduleReconnect :: "MQTTClient \<Rightarrow> MQTTClient" where
  "scheduleReconnect s =
     (case reconnectTimer s of
        Some t \<Rightarrow> s
      | None \<Rightarrow>
          (let s1 = s\<lparr>reconnectAttempts := reconnectAttempts s + 1\<rparr>;
               delay = min (reconnectDelay s1 * reconnectAttempts s1) 30000
           in s1\<lparr>reconnectTimer := Some delay\<rparr>))"

definition stopReconnect :: "MQTTClient \<Rightarrow> MQTTClient" where
  "stopReconnect s =
     (case reconnectTimer s of None \<Rightarrow> s | Some t \<Rightarrow> s\<lparr>reconnectTimer := None\<rparr>)"

text \<open>
  \<open>connect()\<close> up to its \<open>await\<close>: nothing when connected or connecting, else the flag
  is set, a new WebSocket is constructed and the listeners of the wait are registered.
\<close>

definition connect :: "MQTTClient \<Rightarrow> MQTTClient" where
  "connect s =
     (if connected s \<or> connecting s then s
      else s\<lparr>connecting := True, ws := Some (sockets s), sockets := sockets s + 1,
             errorListeners := errorListeners s @ [OnError]\<rparr>)"

text \<open>The callback of the reconnect timer: it forgets the timer and calls \<open>connect()\<close>.\<close>

definition reconnectFire :: "MQTTClient \<Rightarrow> MQTTClient" where
  "reconnectFire s =
     (case reconnectTimer s of
        None \<Rightarrow> s
      | Some t \<Rightarrow> connect (s\<lparr>reconnectTimer := None\<rparr>))"

definition disconnect :: "MQTTClient \<Rightarrow> MQTTClient" where
  "disconnect s =
     (let s1 = stopReconnect s;
          s2 = stopKeepAlive s1;
          s3 = (case ws s2 of
                  None \<Rightarrow> s2
                | Some w \<Rightarrow> (sendDisconnect s2)\<lparr>wsClosed := wsClosed s2 @ [w], ws := None\<rparr>)
      in emit (EDisconnect None) (s3\<lparr>connected := False, connecting := False\<rparr>))"

definition handleClose :: "nat \<Rightarrow> string \<Rightarrow> MQTTClient \<Rightarrow> MQTTClient" where
  "handleClose code reason s =
     (let s1 = s\<lparr>connected := False, connecting := False\<rparr>;
          s2 = emit (EDisconnect (Some (code, reason))) s1
      in if reconnectAttempts s2 < maxReconnectAttempts s2 then scheduleReconnect s2 else s2)"

fun showNat :: "nat \<Rightarrow> string" where
  "showNat n =
     (if n < 10 then [char_of (48 + n)]
      else showNat (n div 10) @ [char_of (48 + n mod 10)])"

definition refusalCodes :: "byte option \<rightharpoonup> string" where
  "refusalCodes returnCode =
     (case returnCode of
        None \<Rightarrow> None
      | Some c \<Rightarrow>
          map_of
            [(1, ''Connection Refused - Unacceptable protocol version''),
             (2, ''Connection Refused - Identifier rejected''),
             (3, ''Connection Refused - Server unavailable''),
             (4, ''Connection Refused - Bad user name or password''),
             (5, ''Connection Refused - Not authorized (bad cookies)'')] c)"

definition handleConnAck :: "byte option \<Rightarrow> MQTTClient \<Rightarrow> (error + unit) \<times> MQTTClient" where
  "handleConnAck returnCode s =
     (if returnCode = Some 0
      then (let s1 = s\<lparr>connected := True, connecting := False, reconnectAttempts := 0\<rparr>;
                s2 = startKeepAlive s1;
                s3 = subscribeToTopics s2
            in case processMessageQueue s3 of
                 (Inl e, s4) \<Rightarrow> (Inl e, s4)
               | (Inr u, s4) \<Rightarrow> (Inr (), emitConnect s4))
      else (let s1 = s\<lparr>connecting := False\<rparr>;
                reason =
                  (case refusalCodes returnCode of
                     Some r \<Rightarrow> r
                   | None \<Rightarrow>
                       ''Connection refused with code '' @
                       (case returnCode of None \<Rightarrow> ''undefined'' | Some c \<Rightarrow> showNat c))
            in emitError reason s1))"

text \<open>\<open>handleError\<close>, the handler of the \<open>error\<close> event of the WebSocket.\<close>

definition handleError :: "string \<Rightarrow> MQTTClient \<Rightarrow> (error + unit) \<times> MQTTClient" where
  "handleError message s = emitError message s"

section \<open>The event parser\<close>

text \<open>
  A JavaScript value as \<open>JSON.parse\<close> builds it, with \<open>undefined\<close> added for the
  result of reading a property that is absent. An event is the object literal the
  parser returns, \<open>JNull\<close> is \<open>null\<close>. An object is the list of its properties, each key
  once. A string is its UTF-8 bytes. \<open>Date.now()\<close> is the parameter \<open>now\<close> of every
  parser.
\<close>

datatype js =
    JUndefined
  | JNull
  | JBool bool
  | JNum rat
  | JStr string
  | JArr "js list"
  | JObj "(string \<times> js) list"

text \<open>
  Reading an own property. The parser reads fixed names only, none of which a string,
  a number, a boolean or an array has, so the result on these is \<open>undefined\<close>. Reading a
  property of \<open>null\<close> throws a TypeError: the parsers test \<open>nullish\<close> where the source
  can read one.
\<close>

fun field :: "js \<Rightarrow> string \<Rightarrow> js" where
  "field (JObj kvs) k = (case map_of kvs k of Some v \<Rightarrow> v | None \<Rightarrow> JUndefined)"
| "field v k = JUndefined"

fun truthy :: "js \<Rightarrow> bool" where
  "truthy JUndefined = False"
| "truthy JNull = False"
| "truthy (JBool b) = b"
| "truthy (JNum n) = (n \<noteq> 0)"
| "truthy (JStr str) = (str \<noteq> [])"
| "truthy (JArr xs) = True"
| "truthy (JObj kvs) = True"

fun nullish :: "js \<Rightarrow> bool" where
  "nullish JUndefined = True"
| "nullish JNull = True"
| "nullish v = False"

fun isArray :: "js \<Rightarrow> bool" where
  "isArray (JArr xs) = True"
| "isArray v = False"

fun elements :: "js \<Rightarrow> js list" where
  "elements (JArr xs) = xs"
| "elements v = []"

text \<open>\<open>a || b\<close> and \<open>v?.k\<close>.\<close>

definition jor :: "js \<Rightarrow> js \<Rightarrow> js" where
  "jor a b = (if truthy a then a else b)"

definition optChain :: "js \<Rightarrow> string \<Rightarrow> js" where
  "optChain v k = (if nullish v then JUndefined else field v k)"

definition extractThreadId :: "js \<Rightarrow> js" where
  "extractThreadId threadKey =
     (if \<not> truthy threadKey then JNull
      else if truthy (field threadKey ''threadFbId'') then field threadKey ''threadFbId''
      else if truthy (field threadKey ''otherUserFbId'') then field threadKey ''otherUserFbId''
      else JNull)"

definition parseAttachments :: "js \<Rightarrow> js" where
  "parseAttachments delta =
     (let attachments = field delta ''attachments''
      in if \<not> truthy attachments \<or> \<not> isArray attachments then JArr [] else attachments)"

definition parseMentions :: "js \<Rightarrow> js" where
  "parseMentions delta =
     (let mentions = field delta ''mentions''
      in if \<not> truthy mentions \<or> \<not> isArray mentions then JArr [] else mentions)"

text \<open>
  \<open>mapReaction\<close>: the seven glyphs of the table, as UTF-8 bytes. The table is read
  with a string key; any other value maps to \<open>null\<close> here. In the source the table is an
  object literal, so that a key naming an inherited property (\<open>constructor\<close>, \<open>toString\<close>)
  yields that property and a key that is not a string is coerced to one; the model
  follows neither.
\<close>

definition reactionMap :: "(string \<times> string) list" where
  "reactionMap =
     [([CHR 0xF0, CHR 0x9F, CHR 0x91, CHR 0x8D], ''like''),
      ([CHR 0xE2, CHR 0x9D, CHR 0xA4, CHR 0xEF, CHR 0xB8, CHR 0x8F], ''love''),
      ([CHR 0xF0, CHR 0x9F, CHR 0x98, CHR 0x86], ''haha''),
      ([CHR 0xF0, CHR 0x9F, CHR 0x98, CHR 0xAE], ''wow''),
      ([CHR 0xF0, CHR 0x9F, CHR 0x98, CHR 0xA2], ''sad''),
      ([CHR 0xF0, CHR 0x9F, CHR 0x98, CHR 0xA0], ''angry''),
      ([CHR 0xF0, CHR 0x9F, CHR 0xA5, CHR 0xB0], ''care'')]"

fun mapReaction :: "js \<Rightarrow> js" where
  "mapReaction (JStr reaction) =
     (case map_of reactionMap reaction of Some r \<Rightarrow> JStr r | None \<Rightarrow> JNull)"
| "mapReaction v = JNull"

definition mapPresenceStatus :: "js \<Rightarrow> string" where
  "mapPresenceStatus status =
     (if status = JStr ''ACTIVE'' \<or> status = JStr ''active'' then ''active''
      else if status = JStr ''IDLE'' \<or> status = JStr ''idle'' then ''idle''
      else ''offline'')"

definition mapCallState :: "js \<Rightarrow> string" where
  "mapCallState state =
     (if state = JStr ''STARTED'' \<or> state = JStr ''started'' then ''started''
      else if state = JStr ''ENDED'' \<or> state = JStr ''ended'' then ''ended''
      else ''missed'')"

definition parseDelta :: "nat \<Rightarrow> js \<Rightarrow> error + js" where
  "parseDelta now deltaData =
     (if nullish deltaData then Inl TypeError
      else if truthy (field deltaData ''messageMetadata'') then
        (let metadata = field deltaData ''messageMetadata'';
             threadKey = field metadata ''threadKey'';
             threadId = extractThreadId threadKey
         in if \<not> truthy threadId then Inr JNull
            else (let isGroup = JBool (truthy (optChain threadKey ''threadFbId''))
                  in Inr (JObj
                            [(''type'', JStr ''message''),
                             (''timestamp'', JNum (of_nat now)),
                             (''message'',
                              JObj
                               [(''messageId'', jor (field metadata ''messageId'') (JStr (''msg_'' @ showNat now))),
                                (''threadId'', threadId),
                                (''senderId'', jor (field metadata ''actorFbId'') (JStr [])),
                                (''body'', jor (field deltaData ''body'') (JStr [])),
                                (''timestamp'', jor (field metadata ''timestamp'') (JNum (of_nat now))),
                                (''attachments'', parseAttachments deltaData),
                                (''mentions'', parseMentions deltaData),
                                (''isGroup'', isGroup),
                                (''reactions'', JArr []),
                                (''isUnread'', JBool True)])])))
      else if truthy (field deltaData ''reaction'') then
        (let reaction = field deltaData ''reaction'';
             threadKey = field deltaData ''threadKey'';
             threadId = extractThreadId threadKey
         in if \<not> truthy threadId then Inr JNull
            else Inr (JObj
                        [(''type'', JStr ''message_reaction''),
                         (''timestamp'', JNum (of_nat now)),
                         (''threadId'', threadId),
                         (''messageId'', jor (field reaction ''messageId'') (JStr [])),
                         (''userId'', jor (field deltaData ''actorFbId'') (JStr [])),
                         (''reaction'',
                          mapReaction (jor (field reaction ''reaction'') (JStr [])))]))
      else Inr JNull)"

definition parseDirectDelta :: "nat \<Rightarrow> js \<Rightarrow> js" where
  "parseDirectDelta now data =
     (let metadata = field data ''messageMetadata''
      in if \<not> truthy metadata then JNull
         else (let threadKey = field metadata ''threadKey'';
                   threadId = extractThreadId threadKey
               in if \<not> truthy threadId then JNull
                  else (let isGroup = JBool (truthy (optChain threadKey ''threadFbId''))
                        in JObj
                             [(''type'', JStr ''message''),
                              (''timestamp'', JNum (of_nat now)),
                              (''message'',
                               JObj
                                [(''messageId'', jor (field metadata ''messageId'') (JStr (''msg_'' @ showNat now))),
                                 (''threadId'', threadId),
                                 (''senderId'', jor (field metadata ''actorFbId'') (JStr [])),
                                 (''body'', jor (field data ''body'') (JStr [])),
                                 (''timestamp'', jor (field metadata ''timestamp'') (JNum (of_nat now))),
                                 (''attachments'', parseAttachments data),
                                 (''mentions'', parseMentions data),
                                 (''isGroup'', isGroup),
                                 (''reactions'', JArr []),
                                 (''isUnread'', JBool True)])])))"

text \<open>
  The loop over \<open>deltas\<close> in \<open>parseMessageSync\<close>: the first delta with a non-null
  parse is returned; \<open>JNull\<close> stands for falling out of the loop.
\<close>

fun firstDelta :: "nat \<Rightarrow> js list \<Rightarrow> error + js" where
  "firstDelta now [] = Inr JNull"
| "firstDelta now (delta # deltas) =
     (case parseDelta now delta of
        Inl e \<Rightarrow> Inl e
      | Inr parsed \<Rightarrow> if truthy parsed then Inr parsed else firstDelta now deltas)"

definition parseMessageSync :: "nat \<Rightarrow> js \<Rightarrow> error + js" where
  "parseMessageSync now msgData =
     (if nullish msgData then Inl TypeError
      else case (if truthy (field msgData ''deltas'') \<and> isArray (field msgData ''deltas'')
                 then firstDelta now (elements (field msgData ''deltas''))
                 else Inr JNull) of
             Inl e \<Rightarrow> Inl e
           | Inr parsed \<Rightarrow>
               if truthy parsed then Inr parsed
               else if truthy (field msgData ''delta'') then parseDelta now (field msgData ''delta'')
               else if truthy (field msgData ''messageMetadata'')
               then Inr (parseDirectDelta now msgData)
               else Inr JNull)"

definition parseRTCEvent :: "nat \<Rightarrow> js \<Rightarrow> error + js" where
  "parseRTCEvent now rtcData =
     (if nullish rtcData then Inl TypeError
      else if truthy (field rtcData ''callState'') then
        Inr (JObj
               [(''type'', JStr ''call''),
                (''timestamp'', JNum (of_nat now)),
                (''callId'', field rtcData ''callId''),
                (''threadId'', field rtcData ''threadId''),
                (''callerId'', field rtcData ''callerId''),
                (''isVideo'', jor (field rtcData ''isVideoCall'') (JBool False)),
                (''isGroupCall'', jor (field rtcData ''isGroupCall'') (JBool False)),
                (''status'', JStr (mapCallState (field rtcData ''callState''))),
                (''duration'', field rtcData ''duration'')])
      else Inr JNull)"

definition parsePresence :: "nat \<Rightarrow> js \<Rightarrow> error + js" where
  "parsePresence now presenceData =
     (if nullish presenceData then Inl TypeError
      else Inr (JObj
                  [(''type'', JStr ''presence''),
                   (''timestamp'', JNum (of_nat now)),
                   (''userId'', field presenceData ''userId''),
                   (''status'', JStr (mapPresenceStatus (field presenceData ''status''))),
                   (''lastActive'', field presenceData ''lastActive'')]))"

definition parseTypingNotification :: "nat \<Rightarrow> js \<Rightarrow> error + js" where
  "parseTypingNotification now typingData =
     (if nullish typingData then Inl TypeError
      else Inr (JObj
                  [(''type'', JStr ''typ''),
                   (''timestamp'', JNum (of_nat now)),
                   (''threadId'', field typingData ''threadId''),
                   (''userId'', field typingData ''senderId''),
                   (''isTyping'', JBool (field typingData ''typingStatus'' = JNum 1))]))"

definition parseGraphQLEvent :: "nat \<Rightarrow> js \<Rightarrow> error + js" where
  "parseGraphQLEvent now gqlData =
     (if nullish gqlData then Inl TypeError
      else if truthy (field gqlData ''deltaThreadName'') then
        (let delta = field gqlData ''deltaThreadName'';
             threadKey = field delta ''threadKey''
         in Inr (JObj
                [(''type'', JStr ''thread_rename''),
                 (''timestamp'', JNum (of_nat now)),
                 (''threadId'', jor (optChain threadKey ''threadFbId'') (JStr [])),
                 (''author'', field delta ''actorFbId''),
                 (''name'', field delta ''name'')]))
      else if truthy (field gqlData ''deltaThreadColor'') then
        (let delta = field gqlData ''deltaThreadColor'';
             threadKey = field delta ''threadKey''
         in Inr (JObj
                [(''type'', JStr ''thread_color''),
                 (''timestamp'', JNum (of_nat now)),
                 (''threadId'', jor (optChain threadKey ''threadFbId'') (JStr [])),
                 (''author'', field delta ''actorFbId''),
                 (''color'', field delta ''color'')]))
      else if truthy (field gqlData ''deltaThreadIcon'') then
        (let delta = field gqlData ''deltaThreadIcon'';
             threadKey = field delta ''threadKey''
         in Inr (JObj
                [(''type'', JStr ''thread_emoji''),
                 (''timestamp'', JNum (of_nat now)),
                 (''threadId'', jor (optChain threadKey ''threadFbId'') (JStr [])),
                 (''author'', field delta ''actorFbId''),
                 (''emoji'', field delta ''emoji'')]))
      else if truthy (field gqlData ''deltaThreadImage'') then
        (let delta = field gqlData ''deltaThreadImage'';
             threadKey = field delta ''threadKey''
         in Inr (JObj
                [(''type'', JStr ''thread_image''),
                 (''timestamp'', JNum (of_nat now)),
                 (''threadId'', jor (optChain threadKey ''threadFbId'') (JStr [])),
                 (''author'', field delta ''actorFbId''),
                 (''imageUrl'', field delta ''imageUrl'')]))
      else if truthy (field gqlData ''deltaNickname'') then
        (let delta = field gqlData ''deltaNickname'';
             threadKey = field delta ''threadKey''
         in Inr (JObj
                [(''type'', JStr ''thread_nickname''),
                 (''timestamp'', JNum (of_nat now)),
                 (''threadId'', jor (optChain threadKey ''threadFbId'') (JStr [])),
                 (''author'', field delta ''actorFbId''),
                 (''participantId'', field delta ''participantId''),
                 (''nickname'', field delta ''nickname'')]))
      else if truthy (field gqlData ''deltaParticipantsAdded'') then
        (let delta = field gqlData ''deltaParticipantsAdded'';
             threadKey = field delta ''threadKey''
         in Inr (JObj
                [(''type'', JStr ''thread_add_participants''),
                 (''timestamp'', JNum (of_nat now)),
                 (''threadId'', jor (optChain threadKey ''threadFbId'') (JStr [])),
                 (''author'', field delta ''actorFbId''),
                 (''participantIds'', field delta ''participantIds'')]))
      else if truthy (field gqlData ''deltaParticipantsRemoved'') then
        (let delta = field gqlData ''deltaParticipantsRemoved'';
             threadKey = field delta ''threadKey''
         in Inr (JObj
                [(''type'', JStr ''thread_remove_participants''),
                 (''timestamp'', JNum (of_nat now)),
                 (''threadId'', jor (optChain threadKey ''threadFbId'') (JStr [])),
                 (''author'', field delta ''actorFbId''),
                 (''participantIds'', field delta ''participantIds'')]))
      else if truthy (field gqlData ''deltaAdminAdded'') then
        (let delta = field gqlData ''deltaAdminAdded'';
             threadKey = field delta ''threadKey''
         in Inr (JObj
                [(''type'', JStr ''thread_promote''),
                 (''timestamp'', JNum (of_nat now)),
                 (''threadId'', jor (optChain threadKey ''threadFbId'') (JStr [])),
                 (''author'', field delta ''actorFbId''),
                 (''participantIds'', field delta ''participantIds'')]))
      else if truthy (field gqlData ''deltaAdminRemoved'') then
        (let delta = field gqlData ''deltaAdminRemoved'';
             threadKey = field delta ''threadKey''
         in Inr (JObj
                [(''type'', JStr ''thread_demote''),
                 (''timestamp'', JNum (of_nat now)),
                 (''threadId'', jor (optChain threadKey ''threadFbId'') (JStr [])),
                 (''author'', field delta ''actorFbId''),
                 (''participantIds'', field delta ''participantIds'')]))
      else if truthy (field gqlData ''deltaLeftThread'') then
        (let delta = field gqlData ''deltaLeftThread'';
             threadKey = field delta ''threadKey''
         in Inr (JObj
                [(''type'', JStr ''thread_leave''),
                 (''timestamp'', JNum (of_nat now)),
                 (''threadId'', jor (optChain threadKey ''threadFbId'') (JStr [])),
                 (''userId'', field delta ''actorFbId'')]))
      else Inr JNull)"

definition parseMessagingEvent :: "nat \<Rightarrow> js \<Rightarrow> error + js" where
  "parseMessagingEvent now msgData =
     (if nullish msgData then Inl TypeError
      else if truthy (field msgData ''readReceipt'') then
        (let receipt = field msgData ''readReceipt''
         in Inr (JObj
                   [(''type'', JStr ''read_receipt''),
                    (''timestamp'', JNum (of_nat now)),
                    (''threadId'', field receipt ''threadId''),
                    (''userId'', field receipt ''actorFbId''),
                    (''watermarkTimestamp'', field receipt ''watermarkTimestamp'')]))
      else if truthy (field msgData ''deliveryReceipt'') then
        (let receipt = field msgData ''deliveryReceipt''
         in Inr (JObj
                   [(''type'', JStr ''delivery_receipt''),
                    (''timestamp'', JNum (of_nat now)),
                    (''threadId'', field receipt ''threadId''),
                    (''userId'', field receipt ''actorFbId''),
                    (''deliveredTimestamp'', field receipt ''deliveredTimestamp'')]))
      else Inr JNull)"

definition parseC2BEvent :: "nat \<Rightarrow> js \<Rightarrow> error + js" where
  "parseC2BEvent now data = parseMessageSync now data"

definition startsWith :: "string \<Rightarrow> string \<Rightarrow> bool" where
  "startsWith str p = (take (length p) str = p)"

text \<open>
  \<open>parse(topic, payload)\<close>. The payload is given by what \<open>JSON.parse\<close> makes of it,
  \<open>None\<close> when \<open>JSON.parse\<close> throws. The \<open>catch\<close> turns every exception into \<open>null\<close>.
\<close>

definition parse :: "nat \<Rightarrow> string \<Rightarrow> js option \<Rightarrow> js" where
  "parse now topic' payload' =
     (case payload' of
        None \<Rightarrow> JNull
      | Some data \<Rightarrow>
          (case (if topic' = ''/t_ms'' then parseMessageSync now data
                 else if topic' = ''/t_rtc'' then parseRTCEvent now data
                 else if topic' = ''/t_p'' then parsePresence now data
                 else if topic' = ''/t_tn'' then parseTypingNotification now data
                 else if topic' = ''/t_graphql'' then parseGraphQLEvent now data
                 else if topic' = ''/t_messaging_events'' then parseMessagingEvent now data
                 else if startsWith topic' ''/mqtt_c2b_'' then parseC2BEvent now data
                 else Inr JNull) of
             Inl e \<Rightarrow> JNull
           | Inr event \<Rightarrow> event))"



section \<open>Frames expected on the wire\<close>

text \<open>
  Auxiliary functions in which the results are stated. \<open>idFor l m\<close> is the packet id
  that \<open>sendPublish\<close> passes to \<open>buildPublishPacket\<close> for message \<open>m\<close> when the counter
  stands at \<open>l\<close>, and \<open>nextId l m\<close> is the counter afterwards. \<open>publishFrames l ms\<close> lists
  the PUBLISH frames of the messages \<open>ms\<close> sent one after the other from counter \<open>l\<close>, and
  \<open>subscribeFrames l ts\<close> the SUBSCRIBE frames of the topics \<open>ts\<close>; a message or topic
  whose frame cannot be built contributes no frame. \<open>control\<close> collects the fields that
  sending a PUBLISH or a SUBSCRIBE leaves alone.

  \<open>publishFrame\<close> and \<open>subscribeFrame\<close> spell out, byte by byte, the frames against which
  the frames sent are compared. A PUBLISH frame: the header byte \<open>0x30\<close> with the QoS in
  bits 1 and 2 and the retain flag in bit 0, the remaining length, the length of the
  topic in two bytes, the topic, the packet id in two bytes when there is one, the QoS is
  above 0 and the id is not 0, and the payload. A SUBSCRIBE frame with requested QoS 1:
  the header byte \<open>0x82\<close>, the remaining length, the packet id in two bytes, the length of
  the topic in two bytes, the topic, and the byte 1. \<open>longTopic\<close> is a topic of 65536
  bytes, one more than the length field of a frame can hold.
\<close>

definition publishFrame :: "MQTTMessage \<Rightarrow> nat option \<Rightarrow> buffer" where
  "publishFrame m packetId =
     (let idField =
            (case packetId of
               None \<Rightarrow> []
             | Some n \<Rightarrow> if 0 < qos m \<and> n \<noteq> 0 then [n div 256, n mod 256] else [])
      in (48 OR push_bit 1 (qos m) OR (if retain m then 1 else 0)) mod 256 #
         encodeRemainingLength (2 + length (topic m) + length idField + length (payload m)) @
         [length (topic m) div 256, length (topic m) mod 256] @ map of_char (topic m) @
         idField @ payload m)"

definition subscribeFrame :: "nat \<Rightarrow> string \<Rightarrow> buffer" where
  "subscribeFrame n t =
     130 # encodeRemainingLength (length t + 5) @
     [n div 256, n mod 256, length t div 256, length t mod 256] @ map of_char t @ [1]"

definition longTopic :: string where
  "longTopic = replicate 65536 CHR ''a''"

definition idFor :: "nat \<Rightarrow> MQTTMessage \<Rightarrow> nat option" where
  "idFor l m = (if qos m > 0 then Some ((l + 1) mod 65536) else None)"

definition nextId :: "nat \<Rightarrow> MQTTMessage \<Rightarrow> nat" where
  "nextId l m = (if qos m > 0 then (l + 1) mod 65536 else l)"

fun publishFrames :: "nat \<Rightarrow> MQTTMessage list \<Rightarrow> buffer list" where
  "publishFrames l [] = []"
| "publishFrames l (m # ms) =
     (case buildPublishPacket m (idFor l m) of Inl e \<Rightarrow> [] | Inr f \<Rightarrow> [f]) @
     publishFrames (nextId l m) ms"

fun subscribeFrames :: "nat \<Rightarrow> string list \<Rightarrow> buffer list" where
  "subscribeFrames l [] = []"
| "subscribeFrames l (t # ts) =
     (case buildSubscribePacket ((l + 1) mod 65536) t 1 of Inl e \<Rightarrow> [] | Inr f \<Rightarrow> [f]) @
     subscribeFrames ((l + 1) mod 65536) ts"

definition control ::
  "MQTTClient \<Rightarrow>
   nat option \<times> string \<times> bool \<times> bool \<times> nat \<times> nat \<times> nat \<times> nat option \<times> nat option \<times>
   nat \<times> nat list \<times> emitted list" where
  "control s =
     (ws s, userId s, connected s, connecting s, reconnectAttempts s, maxReconnectAttempts s,
      reconnectDelay s, reconnectTimer s, keepAliveTimer s, sockets s, wsClosed s, emitted s)"


text \<open>
  A client whose first connection attempt and every scheduled reconnection have ended
  in a close of the transport before any CONNACK: ten times over, the close is handled
  and the reconnect timer fires.
\<close>

definition exhaustedClient :: MQTTClient where
  "exhaustedClient =
     ((\<lambda>s. reconnectFire (handleClose 1006 [] s)) ^^ 10) (connect (newClient ''100''))"


section \<open>Properties of the remaining-length field\<close>

lemma and127: "(d::nat) AND 127 = d mod 128"
proof -
  have m: "(127::nat) = mask 7" by (simp add: mask_eq_exp_minus_1)
  have "d AND mask 7 = d mod 2 ^ 7"
    by (simp only: take_bit_eq_mask [symmetric] take_bit_eq_mod)
  then show ?thesis unfolding m by simp
qed

lemma and128: "((d::nat) AND 128 = 0) = even (d div 128)"
proof -
  have "(d AND 2 ^ 7 = 0) = (\<not> bit d 7)" by (rule and_exp_eq_0_iff_not_bit)
  then show ?thesis by (simp add: bit_iff_odd)
qed

lemma or128: "d < 128 \<Longrightarrow> d OR 128 = d + (128::nat)"
proof -
  assume d: "d < 128"
  then have "d AND 128 = 0" by (simp add: and128)
  then show ?thesis
    by (simp add: disjunctive_add_eq_or)
qed

declare encodeLoop.simps [simp del] readRemainingLength.simps [simp del]

lemma encodeLoop_unfold:
  "encodeLoop n acc =
     (if n div 128 > 0 then encodeLoop (n div 128) (acc @ [n mod 128 + 128])
      else acc @ [n mod 128])"
  by (subst encodeLoop.simps) (simp add: Let_def or128)

lemma encodeLoop_acc: "encodeLoop n acc = acc @ encodeLoop n []"
proof (induction n arbitrary: acc rule: less_induct)
  case (less n)
  show ?case
  proof (cases "n div 128 > 0")
    case True
    then have lt: "n div 128 < n" by auto
    show ?thesis
      using less [OF lt, of "acc @ [n mod 128 + 128]"] less [OF lt, of "[n mod 128 + 128]"] True
      by (simp add: encodeLoop_unfold [of n])
  next
    case False
    then show ?thesis by (simp add: encodeLoop_unfold [of n])
  qed
qed

lemma encodeLoop_Nil:
  "encodeLoop n [] =
     (if n div 128 > 0 then (n mod 128 + 128) # encodeLoop (n div 128) [] else [n mod 128])"
  using encodeLoop_acc [of "n div 128" "[n mod 128 + 128]"]
  by (simp add: encodeLoop_unfold [of n "[]"])

lemma encodeLoop_bytes: "\<forall>b \<in> set (encodeLoop n []). b < 256"
proof (induction n rule: less_induct)
  case (less n)
  show ?case
  proof (cases "n div 128 > 0")
    case True
    then have lt: "n div 128 < n" by auto
    have "n mod 128 + 128 < 256" by simp
    then show ?thesis using less [OF lt] True by (simp add: encodeLoop_Nil [of n])
  next
    case False
    then show ?thesis by (simp add: encodeLoop_Nil [of n])
  qed
qed

lemma encodeRemainingLength_eq: "encodeRemainingLength n = encodeLoop n []"
  unfolding encodeRemainingLength_def fromArray_def
  using encodeLoop_bytes [of n] by (simp add: map_idI)

lemma encodeRemainingLength_rec:
  "encodeRemainingLength n =
     (if n < 128 then [n] else (n mod 128 + 128) # encodeRemainingLength (n div 128))"
  by (simp add: encodeRemainingLength_eq encodeLoop_Nil [of n] div_greater_zero_iff)

lemma encodeRemainingLength_nonempty: "encodeRemainingLength n \<noteq> []"
  by (simp add: encodeRemainingLength_rec [of n])

lemma length_encodeRemainingLength_step:
  "128 \<le> n \<Longrightarrow>
   length (encodeRemainingLength n) = Suc (length (encodeRemainingLength (n div 128)))"
  by (simp add: encodeRemainingLength_rec [of n])

lemma length_encodeRemainingLength:
  assumes "n \<le> 268435455"
  shows "length (encodeRemainingLength n) =
     (if n < 128 then 1 else if n < 16384 then 2 else if n < 2097152 then 3 else 4)"
proof -
  have l1: "\<And>k. k < 128 \<Longrightarrow> length (encodeRemainingLength k) = 1"
    by (simp add: encodeRemainingLength_rec)
  have l2: "\<And>k. 128 \<le> k \<Longrightarrow> k < 16384 \<Longrightarrow> length (encodeRemainingLength k) = 2"
  proof -
    fix k :: nat assume "128 \<le> k" "k < 16384"
    moreover from this have "k div 128 < 128" by (simp add: div_less_iff_less_mult)
    ultimately show "length (encodeRemainingLength k) = 2"
      using length_encodeRemainingLength_step [of k] l1 [of "k div 128"] by simp
  qed
  have l3: "\<And>k. 16384 \<le> k \<Longrightarrow> k < 2097152 \<Longrightarrow> length (encodeRemainingLength k) = 3"
  proof -
    fix k :: nat assume "16384 \<le> k" "k < 2097152"
    moreover from this have "k div 128 < 16384" "128 \<le> k div 128"
      by (simp_all add: div_less_iff_less_mult less_eq_div_iff_mult_less_eq)
    ultimately show "length (encodeRemainingLength k) = 3"
      using length_encodeRemainingLength_step [of k] l2 [of "k div 128"] by simp
  qed
  have l4: "\<And>k. 2097152 \<le> k \<Longrightarrow> k < 268435456 \<Longrightarrow> length (encodeRemainingLength k) = 4"
  proof -
    fix k :: nat assume "2097152 \<le> k" "k < 268435456"
    moreover from this have "k div 128 < 2097152" "16384 \<le> k div 128"
      by (simp_all add: div_less_iff_less_mult less_eq_div_iff_mult_less_eq)
    ultimately show "length (encodeRemainingLength k) = 4"
      using length_encodeRemainingLength_step [of k] l3 [of "k div 128"] by simp
  qed
  show ?thesis using assms l1 [of n] l2 [of n] l3 [of n] l4 [of n] by simp
qed

lemma encodeRemainingLength_digit:
  "i < length (encodeRemainingLength n) \<Longrightarrow>
   encodeRemainingLength n ! i =
     (n div 128 ^ i) mod 128 + (if i + 1 < length (encodeRemainingLength n) then 128 else 0)"
proof (induction n arbitrary: i rule: less_induct)
  case (less n)
  show ?case
  proof (cases "n < 128")
    case True
    then show ?thesis using less.prems by (simp add: encodeRemainingLength_rec [of n])
  next
    case False
    then have lt: "n div 128 < n" by auto
    show ?thesis
    proof (cases i)
      case 0
      then show ?thesis using False
        by (simp add: encodeRemainingLength_rec [of n] encodeRemainingLength_nonempty)
    next
      case (Suc j)
      then have "j < length (encodeRemainingLength (n div 128))"
        using less.prems False by (simp add: encodeRemainingLength_rec [of n])
      from less.IH [OF lt this] show ?thesis
        using False Suc by (simp add: encodeRemainingLength_rec [of n] div_mult2_eq)
    qed
  qed
qed

lemma readRemainingLength_encode:
  "readRemainingLength (pre @ encodeRemainingLength n @ post) (length pre) m a =
     (a + n * m, length pre + length (encodeRemainingLength n))"
proof (induction n arbitrary: pre m a rule: less_induct)
  case (less n)
  show ?case
  proof (cases "n < 128")
    case True
    then show ?thesis
      by (subst readRemainingLength.simps)
         (simp add: encodeRemainingLength_rec [of n] Let_def byteAt_def toInt_def and127 and128)
  next
    case False
    then have lt: "n div 128 < n" by auto
    let ?d = "n mod 128 + 128"
    have e: "encodeRemainingLength n = ?d # encodeRemainingLength (n div 128)"
      using False by (simp add: encodeRemainingLength_rec [of n])
    have d1: "?d AND 127 = n mod 128" by (simp add: and127)
    have d2: "?d AND 128 \<noteq> 0" by (simp add: and128)
    have "readRemainingLength (pre @ encodeRemainingLength n @ post) (length pre) m a =
          readRemainingLength ((pre @ [?d]) @ encodeRemainingLength (n div 128) @ post)
             (length (pre @ [?d])) (m * 128) (a + n mod 128 * m)"
      using d1 d2 by (subst readRemainingLength.simps) (simp add: e Let_def byteAt_def toInt_def nth_append)
    also have "\<dots> = (a + n mod 128 * m + n div 128 * (m * 128),
         length (pre @ [?d]) + length (encodeRemainingLength (n div 128)))"
      by (rule less.IH [OF lt])
    also have "a + n mod 128 * m + n div 128 * (m * 128) = a + n * m"
    proof -
      have "(n mod 128 + n div 128 * 128) * m = n * m" by simp
      then show ?thesis by (simp only: distrib_right mult.assoc mult.commute [of 128 m] add.assoc)
    qed
    finally show ?thesis by (simp add: e)
  qed
qed

text \<open>
  C7. For every \<open>n\<close> from 0 to 268435455, \<open>encodeRemainingLength n\<close> has one to four
  bytes, as few as the base-128 digits of \<open>n\<close> need; byte \<open>i\<close> is the \<open>i\<close>-th digit, least
  significant first, with the continuation bit 0x80 added on every byte but the last;
  and the decoding loop, started at the offset where these bytes begin inside any
  buffer, returns \<open>n\<close> and stops right after the last of them.
\<close>

theorem encodeRemainingLength_roundtrip:
  assumes "n \<le> 268435455"
  shows "length (encodeRemainingLength n) =
           (if n < 128 then 1 else if n < 16384 then 2 else if n < 2097152 then 3 else 4)
       \<and> (\<forall>i < length (encodeRemainingLength n).
             encodeRemainingLength n ! i =
               (n div 128 ^ i) mod 128 +
               (if i + 1 < length (encodeRemainingLength n) then 128 else 0))
       \<and> readRemainingLength (pre @ encodeRemainingLength n @ post) (length pre) 1 0 =
             (n, length pre + length (encodeRemainingLength n))"
proof (intro conjI allI impI)
  show "length (encodeRemainingLength n) =
           (if n < 128 then 1 else if n < 16384 then 2 else if n < 2097152 then 3 else 4)"
    using assms by (rule length_encodeRemainingLength)
next
  fix i assume "i < length (encodeRemainingLength n)"
  then show "encodeRemainingLength n ! i =
               (n div 128 ^ i) mod 128 +
               (if i + 1 < length (encodeRemainingLength n) then 128 else 0)"
    by (rule encodeRemainingLength_digit)
next
  show "readRemainingLength (pre @ encodeRemainingLength n @ post) (length pre) 1 0 =
             (n, length pre + length (encodeRemainingLength n))"
    using readRemainingLength_encode [of pre n post 1 0] by simp
qed

lemma enc_16384: "encodeRemainingLength 16384 = [128, 128, 1]"
  by (simp add: encodeRemainingLength_rec)

theorem encodeRemainingLength_roundtrip_witness:
  "(16384::nat) \<le> 268435455
   \<and> length (encodeRemainingLength 16384) = 3
   \<and> encodeRemainingLength 16384 ! 1 = 128
   \<and> readRemainingLength ([50] @ encodeRemainingLength 16384 @ [0, 5]) 1 1 0 = (16384, 4)"
proof -
  have h: "(16384::nat) \<le> 268435455" by simp
  note t = encodeRemainingLength_roundtrip [OF h, of "[50]" "[0, 5]"]
  have l: "length (encodeRemainingLength 16384) = 3" using t by simp
  have r: "readRemainingLength ([50] @ encodeRemainingLength 16384 @ [0, 5]) 1 1 0 = (16384, 4)"
    using t l by simp
  show ?thesis using h l r by (simp add: enc_16384)
qed

section \<open>PUBLISH frames\<close>

lemma readRemainingLength_example:
  "readRemainingLength
     [50, 16, 0, 5, 47, 116, 95, 109, 115, 0, 7, 123, 34, 120, 34, 58, 49, 125] 2 1 0 = (0, 3)"
  by (subst readRemainingLength.simps) (simp add: byteAt_def toInt_def Let_def)

text \<open>
  C1. The frame for topic \<open>/t_ms\<close>, QoS 1, packet id 7 and payload \<open>{"x":1}\<close> is laid out
  as the claim says: header byte \<open>0x32\<close>, the remaining length 16 in byte 1, the topic
  length, the topic, the packet id, the payload; it is the frame \<open>buildPublishPacket\<close>
  produces. \<open>parsePublishPacket\<close> does not recover the message from it: the loop that reads
  the remaining length starts at byte 2, takes the high byte of the topic length for the
  remaining length, reads the topic length 1327 from bytes 3 and 4, and \<open>readUInt16BE\<close>
  throws a RangeError at the packet id. \<open>parsePacket\<close> passes the exception on.
\<close>

theorem parsePublishPacket_short_frame:
  "buildPublishPacket
     \<lparr>topic = ''/t_ms'', payload = [123, 34, 120, 34, 58, 49, 125], qos = 1, retain = False\<rparr>
     (Some 7) =
     Inr [50, 16, 0, 5, 47, 116, 95, 109, 115, 0, 7, 123, 34, 120, 34, 58, 49, 125]
   \<and> parsePublishPacket
       [50, 16, 0, 5, 47, 116, 95, 109, 115, 0, 7, 123, 34, 120, 34, 58, 49, 125] =
       Inl RangeError
   \<and> parsePacket
       [50, 16, 0, 5, 47, 116, 95, 109, 115, 0, 7, 123, 34, 120, 34, 58, 49, 125] =
       Inl RangeError"
proof (intro conjI)
  show "buildPublishPacket
     \<lparr>topic = ''/t_ms'', payload = [123, 34, 120, 34, 58, 49, 125], qos = 1, retain = False\<rparr>
     (Some 7) =
     Inr [50, 16, 0, 5, 47, 116, 95, 109, 115, 0, 7, 123, 34, 120, 34, 58, 49, 125]"
    by (simp add: buildPublishPacket_def fromString_def writeUInt16BE_def truthyId_def toInt_def
        Let_def fromArray_def encodeRemainingLength_rec)
  show p: "parsePublishPacket
       [50, 16, 0, 5, 47, 116, 95, 109, 115, 0, 7, 123, 34, 120, 34, 58, 49, 125] =
       Inl RangeError"
    unfolding parsePublishPacket_def readRemainingLength_example
    by (simp add: Let_def readUInt16BE_def byteAt_def toInt_def)
  show "parsePacket
       [50, 16, 0, 5, 47, 116, 95, 109, 115, 0, 7, 123, 34, 120, 34, 58, 49, 125] =
       Inl RangeError"
    unfolding parsePacket_def p
    by (simp add: Let_def packetTypes_def byteAt_def toInt_def)
qed

text \<open>
  Where the decoder does work: a frame built by \<open>buildPublishPacket\<close> whose remaining
  length is 128 or more. The loop, started at byte 2, begins inside the field, ends with
  its last byte and stops where the topic length begins.
\<close>

lemma header_qos:
  assumes "q \<le> 3"
  shows "drop_bit 1 ((48 OR push_bit 1 q OR (if r then 1 else 0)) mod 256) AND 3 = (q::nat)"
proof -
  have "q = 0 \<or> q = 1 \<or> q = 2 \<or> q = 3" using assms by arith
  then show ?thesis by (elim disjE) (cases r; simp)+
qed

lemma readUInt16BE_at:
  "a < 256 \<Longrightarrow> b < 256 \<Longrightarrow>
   readUInt16BE (pre @ [a, b] @ post) (length pre) = Inr (a * 256 + b)"
  by (simp add: readUInt16BE_def nth_append)

lemma toString_at:
  "toString (pre @ fromString t @ post) (length pre) (length pre + length t) = t"
proof -
  have "map char_of (map of_char t :: nat list) = t"
    by (simp only: map_map comp_def char_of_char map_ident)
  then show ?thesis by (simp add: toString_def fromString_def)
qed

lemma readRemainingLength_second_byte:
  assumes "128 \<le> n"
  shows "readRemainingLength (h # encodeRemainingLength n @ post) 2 1 0 =
           (n div 128, 1 + length (encodeRemainingLength n))"
proof -
  have e: "encodeRemainingLength n = (n mod 128 + 128) # encodeRemainingLength (n div 128)"
    using assms by (simp add: encodeRemainingLength_rec [of n])
  have "readRemainingLength ([h, n mod 128 + 128] @ encodeRemainingLength (n div 128) @ post)
          (length [h, n mod 128 + 128]) 1 0 =
        (0 + n div 128 * 1, length [h, n mod 128 + 128] + length (encodeRemainingLength (n div 128)))"
    by (rule readRemainingLength_encode)
  then show ?thesis by (simp add: e numeral_2_eq_2)
qed


lemma toString_at':
  "toString (pre @ fromString t @ post) (length pre) (length pre + length (fromString t)) = t"
  using toString_at [of pre t post] by (simp add: fromString_def)

lemma drop_length_append: "drop (length pre) (pre @ xs) = xs"
  by simp

lemma parsePublishPacket_long:
  assumes build: "buildPublishPacket m pid = Inr frame"
    and q: "qos m \<le> 3"
    and pid: "if 0 < qos m then truthyId pid else pid = None"
    and long: "128 \<le> length (topic m) + length (payload m) + (if 0 < qos m then 4 else 2)"
  shows "parsePublishPacket frame = Inr (PUBLISH (topic m) (payload m) (qos m) pid)"
proof -
  let ?tb = "fromString (topic m)"
  let ?L = "length ?tb"
  let ?tl = "[?L div 256, ?L mod 256]"
  let ?h = "(48 OR push_bit 1 (qos m) OR (if retain m then 1 else 0)) mod 256"
  have tlen: "?L \<le> 65535"
    using build by (auto simp: buildPublishPacket_def writeUInt16BE_def Let_def split: if_splits)
  have tl: "?L div 256 < 256" "?L mod 256 < 256" "?L div 256 * 256 + ?L mod 256 = ?L"
    using tlen by (simp_all add: div_less_iff_less_mult)
  define idb where "idb = (if 0 < qos m then [toInt pid div 256, toInt pid mod 256] else [])"
  define rl where "rl = 2 + ?L + length idb + length (payload m)"
  define k where "k = 1 + length (encodeRemainingLength rl)"
  have idlen: "0 < qos m \<Longrightarrow> toInt pid \<le> 65535"
    using build pid
    by (auto simp: buildPublishPacket_def writeUInt16BE_def Let_def split: if_splits sum.splits)
  have frame: "frame = ?h # encodeRemainingLength rl @ ?tl @ ?tb @ idb @ payload m"
    using build tlen pid idlen
    by (auto simp: buildPublishPacket_def writeUInt16BE_def Let_def fromArray_def idb_def rl_def
             split: if_splits)
  have rl128: "128 \<le> rl"
    using long by (auto simp: rl_def idb_def fromString_def split: if_splits)
  have h0: "drop_bit 1 (toInt (byteAt frame 0)) AND 3 = qos m"
    using header_qos [OF q, of "retain m"] by (simp add: frame byteAt_def toInt_def)
  have r: "readRemainingLength frame 2 1 0 = (rl div 128, k)"
    unfolding frame k_def by (rule readRemainingLength_second_byte [OF rl128])
  have f1: "frame = (?h # encodeRemainingLength rl) @ ?tl @ (?tb @ idb @ payload m)"
    and k1: "k = length (?h # encodeRemainingLength rl)"
    by (simp_all add: frame k_def)
  have t: "readUInt16BE frame k = Inr ?L"
    unfolding k1 by (subst f1) (simp only: readUInt16BE_at [OF tl(1,2)] tl(3))
  have f2: "frame = (?h # encodeRemainingLength rl @ ?tl) @ ?tb @ (idb @ payload m)"
    and k2: "k + 2 = length (?h # encodeRemainingLength rl @ ?tl)"
    by (simp_all add: frame k_def)
  have tp: "toString frame (k + 2) (k + 2 + ?L) = topic m"
    unfolding k2 by (subst f2) (rule toString_at')
  show ?thesis
  proof (cases "0 < qos m")
    case False
    then have pn: "pid = None" and ib: "idb = []" using pid by (simp_all add: idb_def)
    have f3: "frame = (?h # encodeRemainingLength rl @ ?tl @ ?tb) @ payload m"
      and k3: "k + 2 + ?L = length (?h # encodeRemainingLength rl @ ?tl @ ?tb)"
      by (simp_all add: frame k_def ib)
    have pl: "drop (k + 2 + ?L) frame = payload m"
      unfolding k3 by (subst f3) (rule drop_length_append)
    show ?thesis
      unfolding parsePublishPacket_def Let_def r prod.case t sum.case h0 tp pl
      using False pn by simp
  next
    case True
    let ?ib = "[toInt pid div 256, toInt pid mod 256]"
    have ib: "idb = ?ib" using True by (simp add: idb_def)
    obtain n where ps: "pid = Some n" using pid True by (cases pid) (simp_all add: truthyId_def)
    have n: "toInt pid = n" using ps by (simp add: toInt_def)
    have nb: "n div 256 < 256" "n mod 256 < 256" "n div 256 * 256 + n mod 256 = n"
      using idlen [OF True] n by (simp_all add: div_less_iff_less_mult)
    have f3: "frame = (?h # encodeRemainingLength rl @ ?tl @ ?tb) @ [n div 256, n mod 256]
                  @ payload m"
      and k3: "k + 2 + ?L = length (?h # encodeRemainingLength rl @ ?tl @ ?tb)"
      by (simp_all add: frame k_def ib n)
    have i: "readUInt16BE frame (k + 2 + ?L) = Inr n"
      unfolding k3 by (subst f3) (simp only: readUInt16BE_at [OF nb(1,2)] nb(3))
    have f4: "frame = (?h # encodeRemainingLength rl @ ?tl @ ?tb @ [n div 256, n mod 256])
                  @ payload m"
      and k4: "k + 2 + ?L + 2 = length (?h # encodeRemainingLength rl @ ?tl @ ?tb
                  @ [n div 256, n mod 256])"
      by (simp_all add: frame k_def ib n)
    have pl: "drop (k + 2 + ?L + 2) frame = payload m"
      unfolding k4 by (subst f4) (rule drop_length_append)
    show ?thesis
      unfolding parsePublishPacket_def Let_def r prod.case t sum.case h0 tp i pl
      using True ps by simp
  qed
qed

text \<open>
  The layout of the frame \<open>buildPublishPacket\<close> produces: the packet id field is present
  exactly when the QoS is above 0 and the id is not 0.
\<close>

lemma buildPublishPacket_frame:
  assumes "length (topic m) \<le> 65535" and "n \<le> 65535"
  shows "buildPublishPacket m (Some n) =
     Inr ((48 OR push_bit 1 (qos m) OR (if retain m then 1 else 0)) mod 256 #
          encodeRemainingLength
            (2 + length (topic m) + (if 0 < qos m \<and> n \<noteq> 0 then 2 else 0)
               + length (payload m)) @
          [length (topic m) div 256, length (topic m) mod 256] @ fromString (topic m) @
          (if 0 < qos m \<and> n \<noteq> 0 then [n div 256, n mod 256] else []) @
          payload m)"
  using assms
  by (simp add: buildPublishPacket_def writeUInt16BE_def Let_def fromArray_def fromString_def
        truthyId_def toInt_def)

lemma buildPublishPacket_zero_id: "buildPublishPacket m (Some 0) = buildPublishPacket m None"
  by (simp add: buildPublishPacket_def truthyId_def Let_def cong: sum.case_cong)

text \<open>
  C3. A QoS 1 publish sent when the counter stands at 65535 is allocated packet id 0.
  The frame then carries no packet id field although its header announces QoS 1, no
  promise is created and no acknowledgment is awaited; the same publish sent from
  counter 0 carries the id 1 after the topic.
\<close>

theorem sendPublish_wrapped_id:
  "sendPublish \<lparr>topic = ''/t_ms'', payload = [104, 105], qos = 1, retain = False\<rparr>
     ((newClient ''100'')\<lparr>ws := Some 0, connected := True, lastPacketId := 65535\<rparr>) =
     (Inr Void,
      (newClient ''100'')\<lparr>ws := Some 0, connected := True, lastPacketId := 0,
         sent := [[50, 9, 0, 5, 47, 116, 95, 109, 115, 104, 105]]\<rparr>)
   \<and> sent (snd (sendPublish \<lparr>topic = ''/t_ms'', payload = [104, 105], qos = 1, retain = False\<rparr>
     ((newClient ''100'')\<lparr>ws := Some 0, connected := True, lastPacketId := 0\<rparr>))) =
       [[50, 11, 0, 5, 47, 116, 95, 109, 115, 0, 1, 104, 105]]"
  by (simp add: sendPublish_def getNextPacketId_def newClient_def wsSend_def
        buildPublishPacket_def fromString_def writeUInt16BE_def truthyId_def toInt_def
        Let_def fromArray_def encodeRemainingLength_rec)

section \<open>Sending and the outbound queue\<close>

lemma writeUInt16BE_ok: "v \<le> 65535 \<Longrightarrow> writeUInt16BE v = Inr [v div 256, v mod 256]"
  by (simp add: writeUInt16BE_def)

lemma writeUInt16BE_throws: "65535 < v \<Longrightarrow> writeUInt16BE v = Inl RangeError"
  by (simp add: writeUInt16BE_def)

lemma buildPublishPacket_ok:
  assumes "length (topic m) \<le> 65535"
  shows "\<exists>f. buildPublishPacket m (idFor l m) = Inr f"
proof -
  have "(l + 1) mod 65536 \<le> (65535::nat)"
    using mod_less_divisor [of 65536 "l + 1"] by linarith
  then show ?thesis using assms
    by (simp add: buildPublishPacket_def idFor_def fromString_def writeUInt16BE_def
          truthyId_def toInt_def Let_def)
qed

lemma buildPublishPacket_throws:
  "65535 < length (topic m) \<Longrightarrow> buildPublishPacket m pid = Inl RangeError"
  by (simp add: buildPublishPacket_def fromString_def writeUInt16BE_def Let_def)

lemma sendPublish_fields:
  assumes "sendPublish m s = (r, s')"
  shows "ws s' = ws s \<and> userId s' = userId s \<and> connected s' = connected s
       \<and> connecting s' = connecting s \<and> reconnectAttempts s' = reconnectAttempts s
       \<and> maxReconnectAttempts s' = maxReconnectAttempts s
       \<and> reconnectDelay s' = reconnectDelay s \<and> reconnectTimer s' = reconnectTimer s
       \<and> keepAliveTimer s' = keepAliveTimer s \<and> messageQueue s' = messageQueue s
       \<and> sockets s' = sockets s \<and> wsClosed s' = wsClosed s \<and> emitted s' = emitted s
       \<and> lastPacketId s' = nextId (lastPacketId s) m"
  using assms
  by (auto simp: sendPublish_def getNextPacketId_def wsSend_def Let_def nextId_def
           split: if_splits sum.splits option.splits prod.splits)

lemma sendPublish_sent:
  assumes "ws s \<noteq> None" and "buildPublishPacket m (idFor (lastPacketId s) m) = Inr f"
  shows "\<exists>r. fst (sendPublish m s) = Inr r" and "sent (snd (sendPublish m s)) = sent s @ [f]"
  using assms
  by (auto simp: sendPublish_def getNextPacketId_def wsSend_def Let_def idFor_def
           split: if_splits sum.splits option.splits prod.splits)

lemma sendPublish_throws:
  assumes "buildPublishPacket m (idFor (lastPacketId s) m) = Inl e"
  shows "fst (sendPublish m s) = Inl e" and "sent (snd (sendPublish m s)) = sent s"
  using assms
  by (auto simp: sendPublish_def getNextPacketId_def wsSend_def Let_def idFor_def
           split: if_splits sum.splits option.splits prod.splits)

declare processMessageQueue.simps [simp del]

lemma sendPublish_control: "control (snd (sendPublish m s)) = control s"
  using sendPublish_fields [of m s "fst (sendPublish m s)" "snd (sendPublish m s)"]
  by (simp add: control_def)

lemma control_messageQueue [simp]: "control (s\<lparr>messageQueue := q\<rparr>) = control s"
  by (simp add: control_def)

lemma control_connected: "control s' = control s \<Longrightarrow> connected s' = connected s"
  by (simp add: control_def)

lemma control_ws: "control s' = control s \<Longrightarrow> ws s' = ws s"
  by (simp add: control_def)

lemma processMessageQueue_flush:
  assumes "connected s" and "ws s \<noteq> None"
    and "\<forall>m \<in> set (messageQueue s). length (topic m) \<le> 65535"
  shows "\<exists>s'. processMessageQueue s = (Inr (), s') \<and> messageQueue s' = []
           \<and> sent s' = sent s @ publishFrames (lastPacketId s) (messageQueue s)
           \<and> length (publishFrames (lastPacketId s) (messageQueue s)) = length (messageQueue s)
           \<and> lastPacketId s' = foldl nextId (lastPacketId s) (messageQueue s)
           \<and> control s' = control s"
  using assms
proof (induction "messageQueue s" arbitrary: s)
  case Nil
  then have "processMessageQueue s = (Inr (), s)"
    by (subst processMessageQueue.simps) simp
  with Nil show ?case by (metis append_Nil2 foldl_Nil list.size(3) publishFrames.simps(1))
next
  case (Cons m ms)
  let ?s1 = "s\<lparr>messageQueue := ms\<rparr>"
  have q: "messageQueue s = m # ms" using Cons.hyps(2) by simp
  have len: "length (topic m) \<le> 65535" using Cons.prems(3) q by simp
  obtain f where f: "buildPublishPacket m (idFor (lastPacketId s) m) = Inr f"
    using buildPublishPacket_ok [OF len] by blast
  obtain r s2 where sp: "sendPublish m ?s1 = (r, s2)" by (cases "sendPublish m ?s1")
  have ws1: "ws ?s1 \<noteq> None" using Cons.prems(2) by simp
  have f1: "buildPublishPacket m (idFor (lastPacketId ?s1) m) = Inr f" using f by simp
  from sendPublish_sent [OF ws1 f1] sp
  obtain r' where r: "r = Inr r'" and sent2: "sent s2 = sent s @ [f]" by auto
  from sendPublish_fields [OF sp]
  have q2: "messageQueue s2 = ms" and c2: "connected s2" and w2: "ws s2 \<noteq> None"
    and l2: "lastPacketId s2 = nextId (lastPacketId s) m"
    using Cons.prems(1,2) by simp_all
  have ctl2: "control s2 = control s"
    using sendPublish_control [of m ?s1] sp by simp
  have all2: "\<forall>m \<in> set (messageQueue s2). length (topic m) \<le> 65535"
    using Cons.prems(3) q q2 by simp
  from Cons.hyps(1) [OF q2 [symmetric] c2 w2 all2]
  obtain s' where s': "processMessageQueue s2 = (Inr (), s')" "messageQueue s' = []"
    "sent s' = sent s2 @ publishFrames (lastPacketId s2) (messageQueue s2)"
    "length (publishFrames (lastPacketId s2) (messageQueue s2)) = length (messageQueue s2)"
    "lastPacketId s' = foldl nextId (lastPacketId s2) (messageQueue s2)"
    "control s' = control s2"
    by blast
  have step: "processMessageQueue s = processMessageQueue s2"
    using Cons.prems(1) q sp r by (subst processMessageQueue.simps) (simp add: Let_def)
  show ?case
    using s' step q q2 l2 sent2 f ctl2 by simp
qed

lemma subscribe_connected:
  assumes "connected s" and "ws s \<noteq> None"
  shows "sent (snd (subscribe t 1 s)) = sent s @ subscribeFrames (lastPacketId s) [t]"
    and "lastPacketId (snd (subscribe t 1 s)) = (lastPacketId s + 1) mod 65536"
    and "control (snd (subscribe t 1 s)) = control s"
    and "messageQueue (snd (subscribe t 1 s)) = messageQueue s"
  using assms
  by (auto simp: subscribe_def getNextPacketId_def wsSend_def Let_def control_def
           split: sum.splits option.splits)

lemma subscribeFrames_Cons:
  "subscribeFrames l (t # ts) = subscribeFrames l [t] @ subscribeFrames ((l + 1) mod 65536) ts"
  by simp

lemma subscribeLoop_connected:
  assumes "connected s" and "ws s \<noteq> None"
  shows "sent (subscribeLoop ts s) = sent s @ subscribeFrames (lastPacketId s) ts
       \<and> lastPacketId (subscribeLoop ts s) =
           (if ts = [] then lastPacketId s else (lastPacketId s + length ts) mod 65536)
       \<and> control (subscribeLoop ts s) = control s
       \<and> messageQueue (subscribeLoop ts s) = messageQueue s"
  using assms
proof (induction ts arbitrary: s)
  case Nil
  then show ?case by simp
next
  case (Cons t ts)
  let ?s1 = "snd (subscribe t 1 s)"
  have step: "subscribeLoop (t # ts) s = subscribeLoop ts ?s1"
    by (cases "subscribe t 1 s") (auto split: sum.splits)
  note sub = subscribe_connected [OF Cons.prems, of t]
  have c1: "connected ?s1" "ws ?s1 \<noteq> None"
    using sub(3) Cons.prems by (simp_all add: control_def)
  from Cons.IH [OF c1]
  have ih: "sent (subscribeLoop ts ?s1) = sent ?s1 @ subscribeFrames (lastPacketId ?s1) ts"
    "lastPacketId (subscribeLoop ts ?s1) =
       (if ts = [] then lastPacketId ?s1 else (lastPacketId ?s1 + length ts) mod 65536)"
    "control (subscribeLoop ts ?s1) = control ?s1"
    "messageQueue (subscribeLoop ts ?s1) = messageQueue ?s1"
    by simp_all
  have m: "((lastPacketId s + 1) mod 65536 + length ts) mod 65536 =
        (lastPacketId s + length (t # ts)) mod 65536"
    by (simp add: mod_add_left_eq)
  have l: "lastPacketId (subscribeLoop ts ?s1) = (lastPacketId s + length (t # ts)) mod 65536"
    using ih(2) sub(2) m by (cases ts) simp_all
  show ?case
    unfolding step using ih(1,3,4) sub l
    by (simp only: subscribeFrames_Cons [of _ t ts] append_assoc simp_thms list.simps if_False)
qed

lemma subscribeLoop_no_socket: "ws s = None \<Longrightarrow> subscribeLoop ts s = s"
  by (induction ts) (simp_all add: subscribe_def)

lemma topics_length: "length (topics uid) = 12"
  by (simp add: topics_def)

lemma handleConnAck_success:
  assumes "ws s \<noteq> None" and "\<forall>m \<in> set (messageQueue s). length (topic m) \<le> 65535"
  shows "\<exists>s'. handleConnAck (Some 0) s = (Inr (), s')
           \<and> messageQueue s' = []
           \<and> sent s' = sent s @ subscribeFrames (lastPacketId s) (topics (userId s))
                 @ publishFrames ((lastPacketId s + 12) mod 65536) (messageQueue s)
           \<and> length (publishFrames ((lastPacketId s + 12) mod 65536) (messageQueue s)) =
               length (messageQueue s)
           \<and> control s' =
               control (s\<lparr>connected := True, connecting := False, reconnectAttempts := 0,
                          keepAliveTimer := Some 60000, emitted := emitted s @ [EConnect]\<rparr>)"
proof -
  let ?s2 = "startKeepAlive (s\<lparr>connected := True, connecting := False, reconnectAttempts := 0\<rparr>)"
  let ?s3 = "subscribeToTopics ?s2"
  have c2: "connected ?s2" "ws ?s2 \<noteq> None"
    using assms(1) by (simp_all add: startKeepAlive_def)
  have u2: "userId ?s2 = userId s" "lastPacketId ?s2 = lastPacketId s" "sent ?s2 = sent s"
    "messageQueue ?s2 = messageQueue s"
    by (simp_all add: startKeepAlive_def)
  have ne: "topics (userId s) \<noteq> []" using topics_length [of "userId s"] by auto
  note sl = subscribeLoop_connected [OF c2, of "topics (userId s)"]
  have s3: "sent ?s3 = sent s @ subscribeFrames (lastPacketId s) (topics (userId s))"
    "lastPacketId ?s3 = (lastPacketId s + 12) mod 65536"
    "control ?s3 = control ?s2" "messageQueue ?s3 = messageQueue s"
    unfolding subscribeToTopics_def u2 using sl ne
    by (simp_all only: u2 topics_length if_False)
  have c3: "connected ?s3" "ws ?s3 \<noteq> None"
    using s3(3) c2 by (simp_all add: control_def)
  have a3: "\<forall>m \<in> set (messageQueue ?s3). length (topic m) \<le> 65535"
    using assms(2) s3(4) by simp
  from processMessageQueue_flush [OF c3 a3]
  obtain s4 where s4: "processMessageQueue ?s3 = (Inr (), s4)" "messageQueue s4 = []"
    "sent s4 = sent ?s3 @ publishFrames (lastPacketId ?s3) (messageQueue ?s3)"
    "length (publishFrames (lastPacketId ?s3) (messageQueue ?s3)) = length (messageQueue ?s3)"
    "control s4 = control ?s3"
    by blast
  have h: "handleConnAck (Some 0) s = (Inr (), emitConnect s4)"
    using s4(1) by (simp add: handleConnAck_def Let_def)
  have ctl: "control (emitConnect s4) =
      control (s\<lparr>connected := True, connecting := False, reconnectAttempts := 0,
                 keepAliveTimer := Some 60000, emitted := emitted s @ [EConnect]\<rparr>)"
    using s4(5) s3(3)
    by (simp add: control_def emit_def emitConnect_def startKeepAlive_def keepalive_def)
  show ?thesis
    using h s4(2,3,4) s3(1,2,4) ctl by (simp add: emit_def emitConnect_def)
qed

lemma length_publishFrames:
  "\<forall>m \<in> set ms. length (topic m) \<le> 65535 \<Longrightarrow> length (publishFrames l ms) = length ms"
proof (induction ms arbitrary: l)
  case Nil
  then show ?case by simp
next
  case (Cons m ms)
  then obtain f where "buildPublishPacket m (idFor l m) = Inr f"
    using buildPublishPacket_ok [of m l] by auto
  then show ?case using Cons by simp
qed

lemma publishFrames_nth:
  assumes "\<forall>m \<in> set ms. length (topic m) \<le> 65535" and "i < length ms"
  shows "buildPublishPacket (ms ! i) (idFor (foldl nextId l (take i ms)) (ms ! i)) =
           Inr (publishFrames l ms ! i)"
  using assms
proof (induction ms arbitrary: l i)
  case Nil
  then show ?case by simp
next
  case (Cons m ms)
  obtain f where f: "buildPublishPacket m (idFor l m) = Inr f"
    using buildPublishPacket_ok [of m l] Cons.prems(1) by auto
  show ?case
  proof (cases i)
    case 0
    then show ?thesis using f by simp
  next
    case (Suc j)
    then have j: "j < length ms" using Cons.prems(2) by simp
    have a: "\<forall>m \<in> set ms. length (topic m) \<le> 65535" using Cons.prems(1) by simp
    from Cons.IH [OF a j, of "nextId l m"] show ?thesis using Suc f by simp
  qed
qed

lemma foldl_nextId_succ:
  "(foldl nextId l ms + 1) mod 65536 =
     (l + length (filter (\<lambda>m. 0 < qos m) ms) + 1) mod 65536"
proof (induction ms arbitrary: l)
  case Nil
  then show ?case by simp
next
  case (Cons m ms)
  show ?case
  proof (cases "0 < qos m")
    case True
    let ?k = "length (filter (\<lambda>m. 0 < qos m) ms)"
    have "(foldl nextId ((l + 1) mod 65536) ms + 1) mod 65536 =
          ((l + 1) mod 65536 + ?k + 1) mod 65536"
      by (rule Cons.IH)
    also have "\<dots> = ((l + 1) mod 65536 + (?k + 1)) mod 65536"
      by (simp only: add.assoc)
    also have "\<dots> = ((l + 1) + (?k + 1)) mod 65536"
      by (rule mod_add_left_eq)
    also have "\<dots> = (l + (?k + 1) + 1) mod 65536"
      by (simp only: add.assoc add.commute add.left_commute)
    finally have e: "(foldl nextId ((l + 1) mod 65536) ms + 1) mod 65536 =
        (l + (?k + 1) + 1) mod 65536" .
    have n: "nextId l m = (l + 1) mod 65536" using True by (simp add: nextId_def)
    show ?thesis using True e by (simp add: n)
  next
    case False
    then have n: "nextId l m = l" by (simp add: nextId_def)
    show ?thesis using False Cons.IH [of l] by (simp add: n)
  qed
qed

lemma idFor_counted:
  assumes "i < length ms"
  shows "idFor (foldl nextId l (take i ms)) (ms ! i) =
     (if 0 < qos (ms ! i)
      then Some ((l + length (filter (\<lambda>m. 0 < qos m) (take (Suc i) ms))) mod 65536)
      else None)"
proof (cases "0 < qos (ms ! i)")
  case True
  have "take (Suc i) ms = take i ms @ [ms ! i]"
    using assms by (simp add: take_Suc_conv_app_nth)
  then have "length (filter (\<lambda>m. 0 < qos m) (take (Suc i) ms)) =
             length (filter (\<lambda>m. 0 < qos m) (take i ms)) + 1"
    using True by simp
  then show ?thesis
    using True foldl_nextId_succ [of l "take i ms"] by (simp add: idFor_def)
next
  case False
  then show ?thesis by (simp add: idFor_def)
qed

lemma buildSubscribePacket_ok:
  assumes "length t \<le> 65535"
  shows "\<exists>f. buildSubscribePacket (l mod 65536) t q = Inr f"
proof -
  have "l mod 65536 \<le> (65535::nat)"
    using mod_less_divisor [of 65536 l] by linarith
  then show ?thesis using assms
    by (simp add: buildSubscribePacket_def fromString_def writeUInt16BE_def Let_def)
qed

lemma buildSubscribePacket_throws:
  "65535 < length t \<Longrightarrow> buildSubscribePacket p t q = Inl RangeError"
  by (simp add: buildSubscribePacket_def fromString_def writeUInt16BE_def Let_def)

lemma length_subscribeFrames:
  "\<forall>t \<in> set ts. length t \<le> 65535 \<Longrightarrow> length (subscribeFrames l ts) = length ts"
proof (induction ts arbitrary: l)
  case Nil
  then show ?case by simp
next
  case (Cons t ts)
  obtain f where f: "buildSubscribePacket ((l + 1) mod 65536) t 1 = Inr f"
    using buildSubscribePacket_ok [of t "l + 1" 1] Cons.prems by auto
  then show ?case using Cons by simp
qed

lemma subscribeFrames_nth:
  assumes "\<forall>t \<in> set ts. length t \<le> 65535" and "i < length ts"
  shows "buildSubscribePacket ((l + 1 + i) mod 65536) (ts ! i) 1 = Inr (subscribeFrames l ts ! i)"
  using assms
proof (induction ts arbitrary: l i)
  case Nil
  then show ?case by simp
next
  case (Cons t ts)
  obtain f where f: "buildSubscribePacket ((l + 1) mod 65536) t 1 = Inr f"
    using buildSubscribePacket_ok [of t "l + 1" 1] Cons.prems(1) by auto
  have a: "\<forall>t \<in> set ts. length t \<le> 65535" using Cons.prems(1) by simp
  show ?case
  proof (cases i)
    case 0
    then show ?thesis using f by simp
  next
    case (Suc j)
    then have j: "j < length ts" using Cons.prems(2) by simp
    have "((l + 1) mod 65536 + (1 + j)) mod 65536 = ((l + 1) + (1 + j)) mod 65536"
      by (rule mod_add_left_eq)
    then have "((l + 1) mod 65536 + 1 + j) mod 65536 = (l + 1 + Suc j) mod 65536"
      by (simp add: add.assoc)
    with Cons.IH [OF a j, of "(l + 1) mod 65536"] show ?thesis using Suc f by simp
  qed
qed

lemma topic_makeMessage [simp]: "topic (makeMessage t p q r) = t"
  by (simp add: makeMessage_def)

lemma qos_makeMessage [simp]: "qos (makeMessage t p q r) = q"
  by (simp add: makeMessage_def)


lemma sendPublish_messageQueue:
  "sendPublish m (s\<lparr>messageQueue := q\<rparr>) =
     (fst (sendPublish m s), (snd (sendPublish m s))\<lparr>messageQueue := q\<rparr>)"
  by (auto simp: sendPublish_def getNextPacketId_def wsSend_def Let_def
           split: if_splits sum.splits option.splits prod.splits)

lemma sendPublish_ok:
  assumes "length (topic m) \<le> 65535"
  shows "\<exists>r. fst (sendPublish m s) = Inr r"
proof -
  obtain f where f: "buildPublishPacket m (idFor (lastPacketId s) m) = Inr f"
    using buildPublishPacket_ok [OF assms] by blast
  then show ?thesis
    by (auto simp: sendPublish_def getNextPacketId_def wsSend_def Let_def idFor_def
           split: if_splits sum.splits option.splits prod.splits)
qed

lemma processMessageQueue_fold:
  assumes "connected s" and "\<forall>m \<in> set (messageQueue s). length (topic m) \<le> 65535"
  shows "processMessageQueue s =
     (Inr (), foldl (\<lambda>v m. snd (sendPublish m v)) (s\<lparr>messageQueue := []\<rparr>) (messageQueue s))"
  using assms
proof (induction "messageQueue s" arbitrary: s)
  case Nil
  then have "processMessageQueue s = (Inr (), s)"
    by (subst processMessageQueue.simps) simp
  moreover have "s\<lparr>messageQueue := []\<rparr> = s" using Nil.hyps by simp
  ultimately show ?case using Nil.hyps [symmetric] by simp
next
  case (Cons m ms)
  let ?s1 = "s\<lparr>messageQueue := ms\<rparr>"
  have q: "messageQueue s = m # ms" using Cons.hyps(2) by simp
  have len: "length (topic m) \<le> 65535" using Cons.prems(2) q by simp
  obtain x s2 where sp: "sendPublish m ?s1 = (x, s2)" by (cases "sendPublish m ?s1")
  obtain r where r: "x = Inr r"
    using sendPublish_ok [OF len, of ?s1] sp by auto
  from sendPublish_fields [OF sp]
  have q2: "messageQueue s2 = ms" and c2: "connected s2"
    using Cons.prems(1) by simp_all
  have all2: "\<forall>m \<in> set (messageQueue s2). length (topic m) \<le> 65535"
    using Cons.prems(2) q q2 by simp
  have step: "processMessageQueue s = processMessageQueue s2"
    using Cons.prems(1) q sp r by (subst processMessageQueue.simps) (simp add: Let_def)
  have "s2 = (snd (sendPublish m s))\<lparr>messageQueue := ms\<rparr>"
    using sp by (simp add: sendPublish_messageQueue [where s = s])
  then have e: "s2\<lparr>messageQueue := []\<rparr> = snd (sendPublish m (s\<lparr>messageQueue := []\<rparr>))"
    by (simp add: sendPublish_messageQueue [where s = s])
  from Cons.hyps(1) [OF q2 [symmetric] c2 all2]
  show ?case unfolding step q q2 e by simp
qed

lemma processMessageQueue_throws_head:
  assumes "connected s" and "messageQueue s = m # ms" and "65535 < length (topic m)"
  shows "processMessageQueue s = (Inl RangeError, snd (sendPublish m (s\<lparr>messageQueue := ms\<rparr>)))"
proof -
  let ?s1 = "s\<lparr>messageQueue := ms\<rparr>"
  obtain x s2 where sp: "sendPublish m ?s1 = (x, s2)" by (cases "sendPublish m ?s1")
  have "buildPublishPacket m (idFor (lastPacketId ?s1) m) = Inl RangeError"
    using assms(3) by (rule buildPublishPacket_throws)
  from sendPublish_throws(1) [OF this]
  have x: "x = Inl RangeError" using sp by simp
  have "processMessageQueue s = (Inl RangeError, s2)"
    using assms(1,2) sp x by (subst processMessageQueue.simps) (simp add: Let_def)
  then show ?thesis using sp by simp
qed

lemma buildPublishPacket_publishFrame:
  assumes "length (topic m) \<le> 65535" and "\<forall>n. pid = Some n \<longrightarrow> n \<le> 65535"
  shows "buildPublishPacket m pid = Inr (publishFrame m pid)"
  using assms
  by (cases pid)
     (simp_all add: buildPublishPacket_def publishFrame_def writeUInt16BE_def Let_def
        fromArray_def fromString_def truthyId_def toInt_def)

lemma buildSubscribePacket_subscribeFrame:
  assumes "length t \<le> 65535" and "n \<le> 65535"
  shows "buildSubscribePacket n t 1 = Inr (subscribeFrame n t)"
  using assms
  apply (simp add: buildSubscribePacket_def subscribeFrame_def writeUInt16BE_def Let_def
          fromArray_def fromString_def)
  apply (rule arg_cong [where f = encodeRemainingLength])
  apply simp
  done

lemma publishFrames_nth_frame:
  assumes "\<forall>m \<in> set ms. length (topic m) \<le> 65535" and "i < length ms"
  shows "publishFrames l ms ! i =
     publishFrame (ms ! i)
       (if 0 < qos (ms ! i)
        then Some ((l + length (filter (\<lambda>m. 0 < qos m) (take (Suc i) ms))) mod 65536)
        else None)"
proof -
  let ?pid = "if 0 < qos (ms ! i)
        then Some ((l + length (filter (\<lambda>m. 0 < qos m) (take (Suc i) ms))) mod 65536)
        else None"
  have len: "length (topic (ms ! i)) \<le> 65535" using assms by simp
  have b: "\<forall>n. ?pid = Some n \<longrightarrow> n \<le> 65535"
  proof (intro allI impI)
    fix n assume "?pid = Some n"
    then have "n = (l + length (filter (\<lambda>m. 0 < qos m) (take (Suc i) ms))) mod 65536"
      by (simp split: if_splits)
    moreover have "(l + length (filter (\<lambda>m. 0 < qos m) (take (Suc i) ms))) mod 65536 < 65536"
      by (rule mod_less_divisor) simp
    ultimately show "n \<le> 65535" by linarith
  qed
  have "buildPublishPacket (ms ! i) ?pid = Inr (publishFrames l ms ! i)"
    using publishFrames_nth [OF assms, of l] idFor_counted [OF assms(2), of l] by (simp only:)
  with buildPublishPacket_publishFrame [OF len b] show ?thesis by simp
qed

lemma subscribeFrames_nth_frame:
  assumes "\<forall>t \<in> set ts. length t \<le> 65535" and "i < length ts"
  shows "subscribeFrames l ts ! i = subscribeFrame ((l + 1 + i) mod 65536) (ts ! i)"
proof -
  have len: "length (ts ! i) \<le> 65535" using assms by simp
  have "(l + 1 + i) mod 65536 < (65536::nat)" by (rule mod_less_divisor) simp
  then have n: "(l + 1 + i) mod 65536 \<le> (65535::nat)" by linarith
  from subscribeFrames_nth [OF assms, of l] buildSubscribePacket_subscribeFrame [OF len n]
  show ?thesis by simp
qed

lemma subscribe_queue: "messageQueue (snd (subscribe t q s)) = messageQueue s"
  by (auto simp: subscribe_def getNextPacketId_def wsSend_def Let_def
           split: sum.splits option.splits)

lemma subscribe_control: "control (snd (subscribe t q s)) = control s"
  by (auto simp: subscribe_def getNextPacketId_def wsSend_def Let_def control_def
           split: sum.splits option.splits)

lemma subscribeLoop_step: "subscribeLoop (t # ts) s = subscribeLoop ts (snd (subscribe t 1 s))"
  by (cases "subscribe t 1 s") (auto split: sum.splits)

lemma subscribeLoop_control: "control (subscribeLoop ts s) = control s"
proof (induction ts arbitrary: s)
  case Nil
  then show ?case by simp
next
  case (Cons t ts)
  show ?case
    unfolding subscribeLoop_step
    using Cons.IH [of "snd (subscribe t 1 s)"] subscribe_control [of t 1 s] by simp
qed

lemma subscribeLoop_queue: "messageQueue (subscribeLoop ts s) = messageQueue s"
proof (induction ts arbitrary: s)
  case Nil
  then show ?case by simp
next
  case (Cons t ts)
  show ?case
    unfolding subscribeLoop_step
    using Cons.IH [of "snd (subscribe t 1 s)"] subscribe_queue [of t 1 s] by simp
qed

lemma handleConnAck_flush:
  assumes "\<forall>m \<in> set (messageQueue s). length (topic m) \<le> 65535"
  shows "handleConnAck (Some 0) s =
     (Inr (),
      emitConnect
        (foldl (\<lambda>v m. snd (sendPublish m v))
           ((subscribeToTopics
               (startKeepAlive
                  (s\<lparr>connected := True, connecting := False, reconnectAttempts := 0\<rparr>)))
            \<lparr>messageQueue := []\<rparr>)
           (messageQueue s)))"
proof -
  let ?s2 = "startKeepAlive (s\<lparr>connected := True, connecting := False, reconnectAttempts := 0\<rparr>)"
  let ?s3 = "subscribeToTopics ?s2"
  have q3: "messageQueue ?s3 = messageQueue s"
    by (simp add: subscribeToTopics_def subscribeLoop_queue startKeepAlive_def)
  have "control ?s3 = control ?s2"
    by (simp add: subscribeToTopics_def subscribeLoop_control)
  then have c3: "connected ?s3" by (simp add: control_def startKeepAlive_def)
  have a3: "\<forall>m \<in> set (messageQueue ?s3). length (topic m) \<le> 65535"
    using assms q3 by simp
  from processMessageQueue_fold [OF c3 a3]
  show ?thesis unfolding q3 by (simp add: handleConnAck_def Let_def)
qed

lemma publish_queued:
  "\<not> connected s \<or> ws s = None \<Longrightarrow>
   publish t p q r s = (Inr Void, s\<lparr>messageQueue := messageQueue s @ [makeMessage t p q r]\<rparr>)"
  by (auto simp: publish_def Let_def)

lemma publish_all_queued:
  "\<not> connected s \<or> ws s = None \<Longrightarrow>
   foldl (\<lambda>s (t, p, q, r). snd (publish t p q r s)) s calls =
     s\<lparr>messageQueue := messageQueue s @ map (\<lambda>(t, p, q, r). makeMessage t p q r) calls\<rparr>"
proof (induction calls arbitrary: s)
  case Nil
  then show ?case by simp
next
  case (Cons c calls)
  obtain t p q r where c: "c = (t, p, q, r)" by (cases c)
  let ?s1 = "s\<lparr>messageQueue := messageQueue s @ [makeMessage t p q r]\<rparr>"
  have "\<not> connected ?s1 \<or> ws ?s1 = None" using Cons.prems by simp
  from Cons.IH [OF this] show ?case
    using Cons.prems by (simp add: c publish_queued)
qed

lemma publish_live:
  assumes "connected s" and "ws s \<noteq> None" and "length t \<le> 65535"
  shows "publish t p q r s = (Inr Void, snd (sendPublish (makeMessage t p q r) s))"
    and "sent (snd (publish t p q r s)) =
           sent s @ [publishFrame (makeMessage t p q r)
                       (if 0 < q then Some ((lastPacketId s + 1) mod 65536) else None)]"
proof -
  let ?m = "makeMessage t p q r"
  let ?pid = "if 0 < q then Some ((lastPacketId s + 1) mod 65536) else None"
  have "(lastPacketId s + 1) mod 65536 < (65536::nat)" by (rule mod_less_divisor) simp
  then have b: "\<forall>n. ?pid = Some n \<longrightarrow> n \<le> 65535" by auto
  have len: "length (topic ?m) \<le> 65535" using assms(3) by simp
  have f: "buildPublishPacket ?m (idFor (lastPacketId s) ?m) = Inr (publishFrame ?m ?pid)"
    using buildPublishPacket_publishFrame [OF len b] by (simp add: idFor_def)
  from sendPublish_sent [OF assms(2) f]
  obtain r' where r': "fst (sendPublish ?m s) = Inr r'"
    and s': "sent (snd (sendPublish ?m s)) = sent s @ [publishFrame ?m ?pid]" by blast
  show p: "publish t p q r s = (Inr Void, snd (sendPublish ?m s))"
    using assms(1,2) r' by (cases "sendPublish ?m s") (auto simp: publish_def Let_def)
  show "sent (snd (publish t p q r s)) = sent s @ [publishFrame ?m ?pid]"
    unfolding p using s' by simp
qed

text \<open>
  C8, as amended. Publishing while disconnected only appends the messages to the queue, in
  call order. When the topics queued are at most 65535 bytes long and the CONNACK with
  return code 0 arrives on an open socket, the flush is the run of \<open>sendPublish\<close>, the send
  path of a live publish, over the queued messages in queue order, so that packet ids,
  promises, pending acknowledgments and timeouts are those of live publishes; the queue
  is empty afterwards, and the frames sent after those of the subscriptions are the
  PUBLISH frames of the queued messages, one per message and in queue order, each with
  the packet id the counter yields at its turn. A publish of such a topic made while
  connected goes through \<open>sendPublish\<close> and sends the same frame.
\<close>

theorem publish_queue_fifo:
  assumes "\<not> connected s \<or> ws s = None"
    and "\<forall>m \<in> set (messageQueue s). length (topic m) \<le> 65535"
    and "\<forall>c \<in> set calls. length (fst c) \<le> 65535"
  shows "(let s1 = foldl (\<lambda>s (t, p, q, r). snd (publish t p q r s)) s calls;
              queue = messageQueue s @ map (\<lambda>(t, p, q, r). makeMessage t p q r) calls
          in s1 = s\<lparr>messageQueue := queue\<rparr>
           \<and> (\<forall>u. ws u \<noteq> None \<and> messageQueue u = queue \<longrightarrow>
                 (let u3 = subscribeToTopics
                             (startKeepAlive
                                (u\<lparr>connected := True, connecting := False,
                                   reconnectAttempts := 0\<rparr>));
                      u4 = foldl (\<lambda>v m. snd (sendPublish m v)) (u3\<lparr>messageQueue := []\<rparr>) queue
                  in handleConnAck (Some 0) u = (Inr (), emitConnect u4)
                   \<and> messageQueue (emitConnect u4) = []
                   \<and> (\<exists>pubs. sent (emitConnect u4) = sent u3 @ pubs
                         \<and> length pubs = length queue
                         \<and> (\<forall>i < length queue.
                               pubs ! i =
                                 publishFrame (queue ! i)
                                   (if 0 < qos (queue ! i)
                                    then Some ((lastPacketId u3 +
                                                length (filter (\<lambda>m. 0 < qos m)
                                                          (take (Suc i) queue)))
                                               mod 65536)
                                    else None))))))
       \<and> (\<forall>t p q r (u::MQTTClient). connected u \<and> ws u \<noteq> None \<and> length t \<le> 65535 \<longrightarrow>
             publish t p q r u = (Inr Void, snd (sendPublish (makeMessage t p q r) u))
           \<and> sent (snd (publish t p q r u)) =
               sent u @ [publishFrame (makeMessage t p q r)
                           (if 0 < q then Some ((lastPacketId u + 1) mod 65536) else None)])"
proof (rule conjI)
  let ?s1 = "foldl (\<lambda>s (t, p, q, r). snd (publish t p q r s)) s calls"
  let ?queue = "messageQueue s @ map (\<lambda>(t, p, q, r). makeMessage t p q r) calls"
  have s1: "?s1 = s\<lparr>messageQueue := ?queue\<rparr>"
    using assms(1) by (rule publish_all_queued)
  have bound: "\<forall>m \<in> set ?queue. length (topic m) \<le> 65535"
    using assms(2,3) by auto
  have flush: "\<forall>u. ws u \<noteq> None \<and> messageQueue u = ?queue \<longrightarrow>
      (let u3 = subscribeToTopics
                  (startKeepAlive
                     (u\<lparr>connected := True, connecting := False, reconnectAttempts := 0\<rparr>));
           u4 = foldl (\<lambda>v m. snd (sendPublish m v)) (u3\<lparr>messageQueue := []\<rparr>) ?queue
       in handleConnAck (Some 0) u = (Inr (), emitConnect u4)
        \<and> messageQueue (emitConnect u4) = []
        \<and> (\<exists>pubs. sent (emitConnect u4) = sent u3 @ pubs
              \<and> length pubs = length ?queue
              \<and> (\<forall>i < length ?queue.
                    pubs ! i =
                      publishFrame (?queue ! i)
                        (if 0 < qos (?queue ! i)
                         then Some ((lastPacketId u3 +
                                     length (filter (\<lambda>m. 0 < qos m) (take (Suc i) ?queue)))
                                    mod 65536)
                         else None))))"
  proof (intro allI impI)
    fix u :: MQTTClient
    assume u: "ws u \<noteq> None \<and> messageQueue u = ?queue"
    let ?u2 = "startKeepAlive (u\<lparr>connected := True, connecting := False, reconnectAttempts := 0\<rparr>)"
    let ?u3 = "subscribeToTopics ?u2"
    let ?u4 = "foldl (\<lambda>v m. snd (sendPublish m v)) (?u3\<lparr>messageQueue := []\<rparr>) ?queue"
    have w: "ws u \<noteq> None" and q: "messageQueue u = ?queue" using u by simp_all
    have b: "\<forall>m \<in> set (messageQueue u). length (topic m) \<le> 65535"
      using bound q by simp
    have h: "handleConnAck (Some 0) u = (Inr (), emitConnect ?u4)"
      using handleConnAck_flush [OF b] unfolding q .
    have q3: "messageQueue ?u3 = ?queue"
      using q by (simp add: subscribeToTopics_def subscribeLoop_queue startKeepAlive_def)
    have "control ?u3 = control ?u2"
      by (simp add: subscribeToTopics_def subscribeLoop_control)
    then have c3: "connected ?u3" "ws ?u3 \<noteq> None"
      using w by (simp_all add: control_def startKeepAlive_def)
    have a3: "\<forall>m \<in> set (messageQueue ?u3). length (topic m) \<le> 65535"
      using bound q3 by simp
    from processMessageQueue_flush [OF c3 a3]
    obtain u' where u': "processMessageQueue ?u3 = (Inr (), u')" "messageQueue u' = []"
      "sent u' = sent ?u3 @ publishFrames (lastPacketId ?u3) (messageQueue ?u3)"
      by blast
    have "processMessageQueue ?u3 = (Inr (), ?u4)"
      using processMessageQueue_fold [OF c3(1) a3] unfolding q3 .
    with u'(1) have e: "u' = ?u4" by simp
    have m4: "messageQueue (emitConnect ?u4) = []"
      using u'(2) e by (simp add: emitConnect_def emit_def)
    have s4: "sent (emitConnect ?u4) = sent ?u3 @ publishFrames (lastPacketId ?u3) ?queue"
      using u'(3) e q3 by (simp add: emitConnect_def emit_def)
    have len: "length (publishFrames (lastPacketId ?u3) ?queue) = length ?queue"
      using length_publishFrames [OF bound] .
    have nth: "\<forall>i < length ?queue.
        publishFrames (lastPacketId ?u3) ?queue ! i =
          publishFrame (?queue ! i)
            (if 0 < qos (?queue ! i)
             then Some ((lastPacketId ?u3 +
                         length (filter (\<lambda>m. 0 < qos m) (take (Suc i) ?queue))) mod 65536)
             else None)"
      using publishFrames_nth_frame [OF bound] by blast
    have ex: "\<exists>pubs. sent (emitConnect ?u4) = sent ?u3 @ pubs
              \<and> length pubs = length ?queue
              \<and> (\<forall>i < length ?queue.
                    pubs ! i =
                      publishFrame (?queue ! i)
                        (if 0 < qos (?queue ! i)
                         then Some ((lastPacketId ?u3 +
                                     length (filter (\<lambda>m. 0 < qos m) (take (Suc i) ?queue)))
                                    mod 65536)
                         else None))"
      using s4 len nth by blast
    show "let u3 = ?u3;
           u4 = foldl (\<lambda>v m. snd (sendPublish m v)) (u3\<lparr>messageQueue := []\<rparr>) ?queue
       in handleConnAck (Some 0) u = (Inr (), emitConnect u4)
        \<and> messageQueue (emitConnect u4) = []
        \<and> (\<exists>pubs. sent (emitConnect u4) = sent u3 @ pubs
              \<and> length pubs = length ?queue
              \<and> (\<forall>i < length ?queue.
                    pubs ! i =
                      publishFrame (?queue ! i)
                        (if 0 < qos (?queue ! i)
                         then Some ((lastPacketId u3 +
                                     length (filter (\<lambda>m. 0 < qos m) (take (Suc i) ?queue)))
                                    mod 65536)
                         else None)))"
      unfolding Let_def using h m4 ex by (intro conjI)
  qed
  show "let s1 = ?s1; queue = ?queue
          in s1 = s\<lparr>messageQueue := queue\<rparr>
           \<and> (\<forall>u. ws u \<noteq> None \<and> messageQueue u = queue \<longrightarrow>
                 (let u3 = subscribeToTopics
                             (startKeepAlive
                                (u\<lparr>connected := True, connecting := False,
                                   reconnectAttempts := 0\<rparr>));
                      u4 = foldl (\<lambda>v m. snd (sendPublish m v)) (u3\<lparr>messageQueue := []\<rparr>) queue
                  in handleConnAck (Some 0) u = (Inr (), emitConnect u4)
                   \<and> messageQueue (emitConnect u4) = []
                   \<and> (\<exists>pubs. sent (emitConnect u4) = sent u3 @ pubs
                         \<and> length pubs = length queue
                         \<and> (\<forall>i < length queue.
                               pubs ! i =
                                 publishFrame (queue ! i)
                                   (if 0 < qos (queue ! i)
                                    then Some ((lastPacketId u3 +
                                                length (filter (\<lambda>m. 0 < qos m)
                                                          (take (Suc i) queue)))
                                               mod 65536)
                                    else None)))))"
    using s1 flush by (simp only: Let_def simp_thms)
next
  show "\<forall>t p q r (u::MQTTClient). connected u \<and> ws u \<noteq> None \<and> length t \<le> 65535 \<longrightarrow>
             publish t p q r u = (Inr Void, snd (sendPublish (makeMessage t p q r) u))
           \<and> sent (snd (publish t p q r u)) =
               sent u @ [publishFrame (makeMessage t p q r)
                           (if 0 < q then Some ((lastPacketId u + 1) mod 65536) else None)]"
    using publish_live by blast
qed

lemma list3_eqI:
  assumes "length xs = 3" and "xs ! 0 = a" and "xs ! 1 = b" and "xs ! 2 = c"
  shows "xs = [a, b, c]"
proof -
  from assms(1) obtain x y z where "xs = [x, y, z]"
    by (auto simp: numeral_3_eq_3 length_Suc_conv)
  with assms(2,3,4) show ?thesis by (simp add: numeral_2_eq_2)
qed

lemma topics_bounded:
  "length uid \<le> 65526 \<Longrightarrow> \<forall>t \<in> set (topics uid). length t \<le> 65535"
  by (simp add: topics_def)

lemma subscribe_acks:
  "promises (snd (subscribe t q s)) = promises s
   \<and> pendingAcks (snd (subscribe t q s)) = pendingAcks s
   \<and> ackTimers (snd (subscribe t q s)) = ackTimers s"
  by (auto simp: subscribe_def getNextPacketId_def wsSend_def Let_def
           split: sum.splits option.splits)

lemma subscribeLoop_acks:
  "promises (subscribeLoop ts s) = promises s
   \<and> pendingAcks (subscribeLoop ts s) = pendingAcks s
   \<and> ackTimers (subscribeLoop ts s) = ackTimers s"
proof (induction ts arbitrary: s)
  case Nil
  then show ?case by simp
next
  case (Cons t ts)
  show ?case
    unfolding subscribeLoop_step
    using Cons.IH [of "snd (subscribe t 1 s)"] subscribe_acks [of t 1 s] by simp
qed

lemma sendPublish_qos0:
  assumes "qos m = 0"
  shows "promises (snd (sendPublish m s)) = promises s"
    and "pendingAcks (snd (sendPublish m s)) = pendingAcks s"
    and "ackTimers (snd (sendPublish m s)) = ackTimers s"
  using assms
  by (auto simp: sendPublish_def wsSend_def Let_def split: sum.splits option.splits)

lemma sendPublish_promise:
  assumes "ws s \<noteq> None" and "length (topic m) \<le> 65535" and "0 < qos m"
    and "(lastPacketId s + 1) mod 65536 \<noteq> 0"
  shows "fst (sendPublish m s) = Inr (Promise (length (promises s)))"
    and "promises (snd (sendPublish m s)) = promises s @ [Pending]"
    and "pendingAcks (snd (sendPublish m s)) ((lastPacketId s + 1) mod 65536) =
           Some (length (promises s))"
    and "ackTimers (snd (sendPublish m s)) (length (promises s)) =
           Some ((lastPacketId s + 1) mod 65536, 30000)"
proof -
  obtain f where f: "buildPublishPacket m (idFor (lastPacketId s) m) = Inr f"
    using buildPublishPacket_ok [OF assms(2)] by blast
  then have f': "buildPublishPacket m (Some ((lastPacketId s + 1) mod 65536)) = Inr f"
    using assms(3) by (simp add: idFor_def)
  show "fst (sendPublish m s) = Inr (Promise (length (promises s)))"
    and "promises (snd (sendPublish m s)) = promises s @ [Pending]"
    and "pendingAcks (snd (sendPublish m s)) ((lastPacketId s + 1) mod 65536) =
           Some (length (promises s))"
    and "ackTimers (snd (sendPublish m s)) (length (promises s)) =
           Some ((lastPacketId s + 1) mod 65536, 30000)"
    using assms f'
    by (auto simp: sendPublish_def getNextPacketId_def wsSend_def Let_def truthyId_def toInt_def)
qed

theorem publish_queue_fifo_witness:
  "\<not> connected (newClient ''100'')
   \<and> ws (connect
          (foldl (\<lambda>s (t, p, q, r). snd (publish t p q r s)) (newClient ''100'')
             [(''/a'', AString ''x'', 1, False), (''/b'', AString ''y'', 0, False),
              (''/c'', AString ''z'', 0, False)])) \<noteq> None
   \<and> (\<exists>s'. handleConnAck (Some 0)
               (connect
                  (foldl (\<lambda>s (t, p, q, r). snd (publish t p q r s)) (newClient ''100'')
                     [(''/a'', AString ''x'', 1, False), (''/b'', AString ''y'', 0, False),
                      (''/c'', AString ''z'', 0, False)])) = (Inr (), s')
          \<and> messageQueue s' = []
          \<and> length (sent s') = 15
          \<and> drop 12 (sent s') =
              [[50, 7, 0, 2, 47, 97, 0, 13, 120], [48, 5, 0, 2, 47, 98, 121],
               [48, 5, 0, 2, 47, 99, 122]]
          \<and> promises s' = [Pending]
          \<and> pendingAcks s' 13 = Some 0
          \<and> ackTimers s' 0 = Some (13, 30000))"
proof -
  let ?s = "newClient ''100''"
  let ?calls = "[(''/a'', AString ''x'', 1::nat, False), (''/b'', AString ''y'', 0, False),
                 (''/c'', AString ''z'', 0, False)]"
  let ?s1 = "foldl (\<lambda>s (t, p, q, r). snd (publish t p q r s)) ?s ?calls"
  let ?u = "connect ?s1"
  let ?mA = "makeMessage ''/a'' (AString ''x'') 1 False"
  let ?mB = "makeMessage ''/b'' (AString ''y'') 0 False"
  let ?mC = "makeMessage ''/c'' (AString ''z'') 0 False"
  let ?queue = "[?mA, ?mB, ?mC]"
  let ?u2 = "startKeepAlive (?u\<lparr>connected := True, connecting := False, reconnectAttempts := 0\<rparr>)"
  let ?u3 = "subscribeToTopics ?u2"
  let ?v1 = "snd (sendPublish ?mA (?u3\<lparr>messageQueue := []\<rparr>))"
  let ?v2 = "snd (sendPublish ?mB ?v1)"
  let ?v3 = "snd (sendPublish ?mC ?v2)"
  have h0: "\<not> connected ?s" by (simp add: newClient_def)
  have h1: "\<not> connected ?s \<or> ws ?s = None" by (simp add: newClient_def)
  have h2: "\<forall>m \<in> set (messageQueue ?s). length (topic m) \<le> 65535"
    by (simp add: newClient_def)
  have h3: "\<forall>c \<in> set ?calls. length (fst c) \<le> 65535" by simp
  have q0: "messageQueue ?s = []" by (simp add: newClient_def)
  have queue: "[] @ map (\<lambda>(t, p, q, r). makeMessage t p q r) ?calls = ?queue" by simp
  have fold: "foldl (\<lambda>v m. snd (sendPublish m v)) (?u3\<lparr>messageQueue := []\<rparr>) ?queue = ?v3"
    by simp
  note t = publish_queue_fifo [OF h1 h2 h3, THEN conjunct1, unfolded Let_def q0 queue]
  note s1 = t [THEN conjunct1]
  note all = t [THEN conjunct2]
  have u: "ws ?u \<noteq> None" "messageQueue ?u = ?queue" "sent ?u = []" "lastPacketId ?u = 0"
    "userId ?u = ''100''" "promises ?u = []"
    unfolding s1 by (simp_all add: connect_def newClient_def)
  note inst = all [rule_format, of ?u, OF conjI [OF u(1) u(2)], unfolded fold]
  have h: "handleConnAck (Some 0) ?u = (Inr (), emitConnect ?v3)"
    using inst by (elim conjE)
  have mq: "messageQueue (emitConnect ?v3) = []"
    using inst by (elim conjE)
  obtain pubs where pubs: "sent (emitConnect ?v3) = sent ?u3 @ pubs"
    "length pubs = length ?queue"
    and nth: "\<forall>i<length ?queue. pubs ! i =
        publishFrame (?queue ! i)
          (if 0 < qos (?queue ! i)
           then Some ((lastPacketId ?u3 +
                       length (filter (\<lambda>m. 0 < qos m) (take (Suc i) ?queue))) mod 65536)
           else None)"
    using inst by (elim exE conjE)
  have c2: "connected ?u2" "ws ?u2 \<noteq> None"
    using u(1) by (simp_all add: startKeepAlive_def)
  have u2: "userId ?u2 = ''100''" "lastPacketId ?u2 = 0" "sent ?u2 = []" "promises ?u2 = []"
    using u by (simp_all add: startKeepAlive_def)
  have ne: "topics ''100'' \<noteq> []" using topics_length [of "''100''"] by auto
  note sl = subscribeLoop_connected [OF c2, of "topics ''100''"]
  have u3: "sent ?u3 = subscribeFrames 0 (topics ''100'')" "lastPacketId ?u3 = 12"
    "control ?u3 = control ?u2"
    unfolding subscribeToTopics_def u2 using sl ne
    by (simp_all only: u2 topics_length if_False append_Nil, simp_all)
  have w3: "ws ?u3 \<noteq> None" using u3(3) c2 by (simp add: control_def)
  have p3: "promises ?u3 = []"
    unfolding subscribeToTopics_def using subscribeLoop_acks [of "topics (userId ?u2)" ?u2] u2(4)
    by simp
  have b: "\<forall>t \<in> set (topics ''100''). length t \<le> 65535"
    by (rule topics_bounded) simp
  have len3: "length (sent ?u3) = 12"
    unfolding u3(1) using length_subscribeFrames [OF b] by (simp add: topics_length)
  have len: "length pubs = 3" using pubs(2) by simp
  have fr: "\<And>t p. length t = 2 \<Longrightarrow> length p = 1 \<Longrightarrow>
      publishFrame (makeMessage t (AString p) 0 False) None =
        [48, 5, 0, 2] @ map of_char t @ map of_char p"
    by (simp add: publishFrame_def makeMessage_def fromString_def Let_def
          encodeRemainingLength_rec)
  have frA: "publishFrame ?mA (Some 13) = [50, 7, 0, 2, 47, 97, 0, 13, 120]"
    by (simp add: publishFrame_def makeMessage_def fromString_def Let_def
          encodeRemainingLength_rec)
  have l3: "0 < length ?queue" "1 < length ?queue" "2 < length ?queue" by simp_all
  have "pubs ! 0 = [50, 7, 0, 2, 47, 97, 0, 13, 120]"
    using nth [rule_format, OF l3(1), unfolded u3(2)] frA by simp
  moreover have "pubs ! 1 = [48, 5, 0, 2, 47, 98, 121]"
    using nth [rule_format, OF l3(2), unfolded u3(2)] fr [of "''/b''" "''y''"] by simp
  moreover have "pubs ! 2 = [48, 5, 0, 2, 47, 99, 122]"
    using nth [rule_format, OF l3(3), unfolded u3(2)] fr [of "''/c''" "''z''"] by simp
  ultimately have pv: "pubs = [[50, 7, 0, 2, 47, 97, 0, 13, 120], [48, 5, 0, 2, 47, 98, 121],
               [48, 5, 0, 2, 47, 99, 122]]"
    using len by (intro list3_eqI)
  have sent15: "length (sent (emitConnect ?v3)) = 15"
    unfolding pubs(1) using len3 len by simp
  have drop12: "drop 12 (sent (emitConnect ?v3)) =
      [[50, 7, 0, 2, 47, 97, 0, 13, 120], [48, 5, 0, 2, 47, 98, 121], [48, 5, 0, 2, 47, 99, 122]]"
    unfolding pubs(1) using len3 pv by simp
  let ?v0 = "?u3\<lparr>messageQueue := []\<rparr>"
  have v0: "ws ?v0 \<noteq> None" "length (topic ?mA) \<le> 65535" "0 < qos ?mA"
    "(lastPacketId ?v0 + 1) mod 65536 \<noteq> 0" "promises ?v0 = []" "lastPacketId ?v0 = 12"
    using w3 u3(2) p3 by simp_all
  note sp = sendPublish_promise [OF v0(1,2,3,4), unfolded v0(5,6)]
  have a1: "promises ?v1 = [Pending]" "pendingAcks ?v1 13 = Some 0"
    "ackTimers ?v1 0 = Some (13, 30000)"
    using sp(2,3,4) by simp_all
  have qB: "qos ?mB = 0" and qC: "qos ?mC = 0" by simp_all
  have a3: "promises ?v3 = [Pending]" "pendingAcks ?v3 13 = Some 0"
    "ackTimers ?v3 0 = Some (13, 30000)"
    using a1 by (simp_all only: sendPublish_qos0 [OF qC] sendPublish_qos0 [OF qB])
  have a4: "promises (emitConnect ?v3) = [Pending]" "pendingAcks (emitConnect ?v3) 13 = Some 0"
    "ackTimers (emitConnect ?v3) 0 = Some (13, 30000)"
    using a3 by (simp_all add: emitConnect_def emit_def)
  have "\<exists>s'. handleConnAck (Some 0) ?u = (Inr (), s')
          \<and> messageQueue s' = []
          \<and> length (sent s') = 15
          \<and> drop 12 (sent s') =
              [[50, 7, 0, 2, 47, 97, 0, 13, 120], [48, 5, 0, 2, 47, 98, 121],
               [48, 5, 0, 2, 47, 99, 122]]
          \<and> promises s' = [Pending]
          \<and> pendingAcks s' 13 = Some 0
          \<and> ackTimers s' 0 = Some (13, 30000)"
    using h mq sent15 drop12 a4 by blast
  with h0 u(1) show ?thesis by (intro conjI)
qed

lemma length_longTopic: "length longTopic = 65536"
  unfolding longTopic_def by (rule length_replicate)

lemma sendPublish_no_socket: "ws s = None \<Longrightarrow> sent (snd (sendPublish m s)) = sent s"
  by (auto simp: sendPublish_def getNextPacketId_def wsSend_def Let_def
           split: if_splits sum.splits option.splits prod.splits)

lemma handleConnAck_overlong:
  assumes "messageQueue s = m # ms" and "65535 < length (topic m)"
  shows "fst (handleConnAck (Some 0) s) = Inl RangeError"
    and "messageQueue (snd (handleConnAck (Some 0) s)) = ms"
    and "sent (snd (handleConnAck (Some 0) s)) =
           sent (subscribeToTopics
                   (startKeepAlive
                      (s\<lparr>connected := True, connecting := False, reconnectAttempts := 0\<rparr>)))"
    and "emitted (snd (handleConnAck (Some 0) s)) = emitted s"
    and "connected (snd (handleConnAck (Some 0) s))"
proof -
  let ?s2 = "startKeepAlive (s\<lparr>connected := True, connecting := False, reconnectAttempts := 0\<rparr>)"
  let ?s3 = "subscribeToTopics ?s2"
  let ?s4 = "snd (sendPublish m (?s3\<lparr>messageQueue := ms\<rparr>))"
  have q3: "messageQueue ?s3 = m # ms"
    using assms(1) by (simp add: subscribeToTopics_def subscribeLoop_queue startKeepAlive_def)
  have ctl: "control ?s3 = control ?s2"
    by (simp add: subscribeToTopics_def subscribeLoop_control)
  then have c3: "connected ?s3" by (simp add: control_def startKeepAlive_def)
  have e3: "emitted ?s3 = emitted s" using ctl by (simp add: control_def startKeepAlive_def)
  have p: "processMessageQueue ?s3 = (Inl RangeError, ?s4)"
    using c3 q3 assms(2) by (rule processMessageQueue_throws_head)
  have h: "handleConnAck (Some 0) s = (Inl RangeError, ?s4)"
    using p by (simp add: handleConnAck_def Let_def)
  obtain x where sp: "sendPublish m (?s3\<lparr>messageQueue := ms\<rparr>) = (x, ?s4)"
    by (cases "sendPublish m (?s3\<lparr>messageQueue := ms\<rparr>)") simp
  note f = sendPublish_fields [OF sp]
  have b: "buildPublishPacket m (idFor (lastPacketId (?s3\<lparr>messageQueue := ms\<rparr>)) m) =
      Inl RangeError"
    using assms(2) by (rule buildPublishPacket_throws)
  show "fst (handleConnAck (Some 0) s) = Inl RangeError" using h by simp
  show "messageQueue (snd (handleConnAck (Some 0) s)) = ms" using h f by simp
  show "sent (snd (handleConnAck (Some 0) s)) = sent ?s3"
    using h sendPublish_throws(2) [OF b] by simp
  show "emitted (snd (handleConnAck (Some 0) s)) = emitted s" using h f e3 by simp
  show "connected (snd (handleConnAck (Some 0) s))" using h f c3 by simp
qed

lemma handleConnAck_no_socket:
  assumes "ws s = None" and "\<forall>m \<in> set (messageQueue s). length (topic m) \<le> 65535"
  shows "fst (handleConnAck (Some 0) s) = Inr ()"
    and "messageQueue (snd (handleConnAck (Some 0) s)) = []"
    and "sent (snd (handleConnAck (Some 0) s)) = sent s"
    and "emitted (snd (handleConnAck (Some 0) s)) = emitted s @ [EConnect]"
proof -
  let ?s2 = "startKeepAlive (s\<lparr>connected := True, connecting := False, reconnectAttempts := 0\<rparr>)"
  let ?step = "\<lambda>v m. snd (sendPublish m v)"
  have w2: "ws ?s2 = None" using assms(1) by (simp add: startKeepAlive_def)
  have s3: "subscribeToTopics ?s2 = ?s2"
    unfolding subscribeToTopics_def using w2 by (rule subscribeLoop_no_socket)
  have h: "handleConnAck (Some 0) s =
      (Inr (), emitConnect (foldl ?step (?s2\<lparr>messageQueue := []\<rparr>) (messageQueue s)))"
    using handleConnAck_flush [OF assms(2)] unfolding s3 .
  have inv: "\<And>v. ws v = None \<Longrightarrow> messageQueue v = [] \<Longrightarrow>
      ws (foldl ?step v ms) = None \<and> messageQueue (foldl ?step v ms) = []
      \<and> sent (foldl ?step v ms) = sent v \<and> emitted (foldl ?step v ms) = emitted v" for ms
  proof (induction ms)
    case Nil
    then show ?case by simp
  next
    case (Cons m ms)
    obtain x v' where sp: "sendPublish m v = (x, v')" by (cases "sendPublish m v")
    from sendPublish_fields [OF sp] sendPublish_no_socket [OF Cons.prems(1), of m] sp
    have v': "ws v' = None" "messageQueue v' = []" "sent v' = sent v" "emitted v' = emitted v"
      using Cons.prems by simp_all
    from Cons.IH [OF v'(1,2)] show ?case using sp v' by simp
  qed
  have v0: "ws (?s2\<lparr>messageQueue := []\<rparr>) = None" "messageQueue (?s2\<lparr>messageQueue := []\<rparr>) = []"
    using w2 by simp_all
  note i = inv [OF v0, of "messageQueue s"]
  show "fst (handleConnAck (Some 0) s) = Inr ()" using h by simp
  show "messageQueue (snd (handleConnAck (Some 0) s)) = []"
    using h i by (simp add: emitConnect_def emit_def)
  show "sent (snd (handleConnAck (Some 0) s)) = sent s"
    using h i by (simp add: emitConnect_def emit_def startKeepAlive_def)
  show "emitted (snd (handleConnAck (Some 0) s)) = emitted s @ [EConnect]"
    using h i by (simp add: emitConnect_def emit_def startKeepAlive_def)
qed

text \<open>
  C8, as stated, fails. A client that was given two publishes while disconnected, the
  first with a topic of 65536 bytes, and then connects: the flush of the CONNACK with
  return code 0 throws a RangeError on the first message, which has left the queue and
  is sent nowhere; the second message stays in the queue of the connected client, only
  the twelve SUBSCRIBE frames have been sent, and \<open>connect\<close> is not emitted. And a client
  whose socket \<open>disconnect()\<close> has closed and forgotten: the flush of a CONNACK that still
  arrives empties the queue and sends nothing.
\<close>

theorem flush_drops_overlong_topic:
  "(let u = connect
             (foldl (\<lambda>s (t, p, q, r). snd (publish t p q r s)) (newClient ''100'')
                [(longTopic, AString ''x'', 0, False), (''/b'', AString ''y'', 0, False)]);
        r = handleConnAck (Some 0) u
    in length longTopic = 65536
     \<and> messageQueue u =
         [makeMessage longTopic (AString ''x'') 0 False, makeMessage ''/b'' (AString ''y'') 0 False]
     \<and> ws u = Some 0
     \<and> fst r = Inl RangeError
     \<and> connected (snd r)
     \<and> messageQueue (snd r) = [makeMessage ''/b'' (AString ''y'') 0 False]
     \<and> length (sent (snd r)) = 12
     \<and> emitted (snd r) = [])
   \<and> (let u = disconnect
                 (connect
                    (foldl (\<lambda>s (t, p, q, r). snd (publish t p q r s)) (newClient ''100'')
                       [(''/b'', AString ''y'', 0, False)]));
            r = handleConnAck (Some 0) u
        in messageQueue u = [makeMessage ''/b'' (AString ''y'') 0 False]
         \<and> ws u = None
         \<and> sent u = [[224, 0]]
         \<and> fst r = Inr ()
         \<and> messageQueue (snd r) = []
         \<and> sent (snd r) = [[224, 0]])"
proof (rule conjI)
  let ?mL = "makeMessage longTopic (AString ''x'') 0 False"
  let ?mB = "makeMessage ''/b'' (AString ''y'') 0 False"
  let ?calls = "[(longTopic, AString ''x'', 0::nat, False), (''/b'', AString ''y'', 0, False)]"
  let ?u = "connect (foldl (\<lambda>s (t, p, q, r). snd (publish t p q r s)) (newClient ''100'') ?calls)"
  have n: "\<not> connected (newClient ''100'') \<or> ws (newClient ''100'') = None"
    by (simp add: newClient_def)
  have s1: "foldl (\<lambda>s (t, p, q, r). snd (publish t p q r s)) (newClient ''100'') ?calls =
      (newClient ''100'')\<lparr>messageQueue := [?mL, ?mB]\<rparr>"
    using publish_all_queued [OF n, of ?calls] by (simp add: newClient_def)
  have u: "messageQueue ?u = [?mL, ?mB]" "ws ?u = Some 0" "sent ?u = []" "emitted ?u = []"
    "userId ?u = ''100''" "lastPacketId ?u = 0"
    unfolding s1 by (simp_all add: connect_def newClient_def)
  have long: "65535 < length (topic ?mL)" by (simp add: length_longTopic)
  note h = handleConnAck_overlong [OF u(1) long]
  let ?u2 = "startKeepAlive (?u\<lparr>connected := True, connecting := False, reconnectAttempts := 0\<rparr>)"
  have c2: "connected ?u2" "ws ?u2 \<noteq> None"
    using u(2) by (simp_all add: startKeepAlive_def)
  have u2: "userId ?u2 = ''100''" "lastPacketId ?u2 = 0" "sent ?u2 = []"
    using u by (simp_all add: startKeepAlive_def)
  have b: "\<forall>t \<in> set (topics ''100''). length t \<le> 65535"
    by (rule topics_bounded) simp
  have "sent (subscribeToTopics ?u2) = subscribeFrames 0 (topics ''100'')"
    unfolding subscribeToTopics_def u2
    using subscribeLoop_connected [OF c2, of "topics ''100''"]
    by (simp only: u2 append_Nil)
  then have len: "length (sent (subscribeToTopics ?u2)) = 12"
    using length_subscribeFrames [OF b] by (simp add: topics_length)
  show "let u = ?u; r = handleConnAck (Some 0) u
    in length longTopic = 65536
     \<and> messageQueue u = [?mL, ?mB]
     \<and> ws u = Some 0
     \<and> fst r = Inl RangeError
     \<and> connected (snd r)
     \<and> messageQueue (snd r) = [?mB]
     \<and> length (sent (snd r)) = 12
     \<and> emitted (snd r) = []"
    unfolding Let_def h(3) h(4)
    using length_longTopic u(1,2,4) h(1,2,5) len by (intro conjI)
next
  let ?mB = "makeMessage ''/b'' (AString ''y'') 0 False"
  let ?calls = "[(''/b'', AString ''y'', 0::nat, False)]"
  let ?u = "disconnect
              (connect (foldl (\<lambda>s (t, p, q, r). snd (publish t p q r s)) (newClient ''100'') ?calls))"
  have n: "\<not> connected (newClient ''100'') \<or> ws (newClient ''100'') = None"
    by (simp add: newClient_def)
  have s1: "foldl (\<lambda>s (t, p, q, r). snd (publish t p q r s)) (newClient ''100'') ?calls =
      (newClient ''100'')\<lparr>messageQueue := [?mB]\<rparr>"
    using publish_all_queued [OF n, of ?calls] by (simp add: newClient_def)
  have u: "messageQueue ?u = [?mB]" "ws ?u = None" "sent ?u = [[224, 0]]"
    unfolding s1
    by (simp_all add: connect_def newClient_def disconnect_def stopReconnect_def
          stopKeepAlive_def sendDisconnect_def wsSend_def emit_def fromArray_def Let_def)
  have bound: "\<forall>m \<in> set (messageQueue ?u). length (topic m) \<le> 65535"
    unfolding u(1) by simp
  note h = handleConnAck_no_socket [OF u(2) bound]
  show "let u = ?u; r = handleConnAck (Some 0) u
        in messageQueue u = [?mB]
         \<and> ws u = None
         \<and> sent u = [[224, 0]]
         \<and> fst r = Inr ()
         \<and> messageQueue (snd r) = []
         \<and> sent (snd r) = [[224, 0]]"
    unfolding Let_def h(3)
    using u h(1,2) by (intro conjI)
qed

section \<open>Handling the CONNACK\<close>

lemma processMessageQueue_control: "control (snd (processMessageQueue s)) = control s"
proof (induction s rule: processMessageQueue.induct)
  case (1 s)
  show ?case
  proof (cases "length (messageQueue s) > 0 \<and> connected s")
    case False
    then show ?thesis by (subst processMessageQueue.simps) auto
  next
    case True
    let ?m = "hd (messageQueue s)"
    let ?s1 = "s\<lparr>messageQueue := tl (messageQueue s)\<rparr>"
    obtain r s2 where sp: "sendPublish ?m ?s1 = (r, s2)" by (cases "sendPublish ?m ?s1")
    have c2: "control s2 = control s"
      using sendPublish_control [of ?m ?s1] sp by simp
    show ?thesis
    proof (cases r)
      case (Inl e)
      then have "processMessageQueue s = (Inl e, s2)"
        using True sp by (subst processMessageQueue.simps) (simp add: Let_def)
      then show ?thesis using c2 by simp
    next
      case (Inr v)
      then have "processMessageQueue s = processMessageQueue s2"
        using True sp by (subst processMessageQueue.simps) (simp add: Let_def)
      moreover have "control (snd (processMessageQueue s2)) = control s2"
        using "1.IH" [OF True refl refl sp [symmetric] Inr] .
      ultimately show ?thesis using c2 by simp
    qed
  qed
qed

lemma handleConnAck_success_control:
  "control (snd (handleConnAck (Some 0) s)) =
     control (s\<lparr>connected := True, connecting := False, reconnectAttempts := 0,
                keepAliveTimer := Some 60000\<rparr>)
   \<or> control (snd (handleConnAck (Some 0) s)) =
     control (s\<lparr>connected := True, connecting := False, reconnectAttempts := 0,
                keepAliveTimer := Some 60000, emitted := emitted s @ [EConnect]\<rparr>)"
proof -
  let ?s2 = "startKeepAlive (s\<lparr>connected := True, connecting := False, reconnectAttempts := 0\<rparr>)"
  let ?s3 = "subscribeToTopics ?s2"
  have c3: "control ?s3 = control ?s2"
    by (simp add: subscribeToTopics_def subscribeLoop_control)
  have c4: "control (snd (processMessageQueue ?s3)) = control ?s2"
    using processMessageQueue_control [of ?s3] c3 by simp
  have c2: "control ?s2 = control (s\<lparr>connected := True, connecting := False,
       reconnectAttempts := 0, keepAliveTimer := Some 60000\<rparr>)"
    by (simp add: control_def startKeepAlive_def keepalive_def)
  obtain r s4 where p: "processMessageQueue ?s3 = (r, s4)" by (cases "processMessageQueue ?s3")
  show ?thesis
  proof (cases r)
    case (Inl e)
    then have "handleConnAck (Some 0) s = (Inl e, s4)"
      using p by (simp add: handleConnAck_def Let_def)
    then show ?thesis using c4 c2 p by simp
  next
    case (Inr u)
    then have "handleConnAck (Some 0) s = (Inr (), emitConnect s4)"
      using p by (simp add: handleConnAck_def Let_def)
    moreover have "control (emitConnect s4) =
        control (s\<lparr>connected := True, connecting := False, reconnectAttempts := 0,
                keepAliveTimer := Some 60000, emitted := emitted s @ [EConnect]\<rparr>)"
      using c4 c2 p by (simp add: control_def emit_def emitConnect_def)
    ultimately show ?thesis by simp
  qed
qed

lemma callListeners_state: "\<exists>L. snd (callListeners ls s) = s\<lparr>errorListeners := L\<rparr>"
proof (induction ls arbitrary: s)
  case Nil
  have "s = s\<lparr>errorListeners := errorListeners s\<rparr>" by simp
  then show ?case by (metis callListeners.simps(1) snd_conv)
next
  case (Cons l ls)
  let ?s1 = "case l of
               On b \<Rightarrow> s
             | Once b \<Rightarrow> s\<lparr>errorListeners := remove1 l (errorListeners s)\<rparr>
             | OnError \<Rightarrow> s\<lparr>errorListeners := remove1 l (errorListeners s)\<rparr>"
  have "\<exists>L1. ?s1 = s\<lparr>errorListeners := L1\<rparr>"
  proof (cases l)
    case (On b)
    have "s = s\<lparr>errorListeners := errorListeners s\<rparr>" by simp
    then have "\<exists>L1. s = s\<lparr>errorListeners := L1\<rparr>" by (rule exI)
    then show ?thesis using On by simp
  next
    case (Once b)
    then show ?thesis by auto
  next
    case OnError
    then show ?thesis by auto
  qed
  then obtain L1 where L1: "?s1 = s\<lparr>errorListeners := L1\<rparr>" by blast
  show ?case
  proof (cases "throwing l")
    case True
    then show ?thesis using L1 by (auto simp: Let_def)
  next
    case False
    from Cons.IH [of ?s1] obtain L where "snd (callListeners ls ?s1) = ?s1\<lparr>errorListeners := L\<rparr>"
      by blast
    then have "snd (callListeners (l # ls) s) = s\<lparr>errorListeners := L\<rparr>"
      using False L1 by (simp add: Let_def)
    then show ?thesis by blast
  qed
qed

lemma callListeners_result:
  "fst (callListeners ls s) = (if \<exists>l \<in> set ls. throwing l then Inl ListenerError else Inr ())"
  by (induction ls arbitrary: s) (auto simp: Let_def)

lemma emitError_state:
  "\<exists>L. snd (emitError msg s) = s\<lparr>emitted := emitted s @ [EError msg], errorListeners := L\<rparr>"
proof (cases "errorListeners s = []")
  case True
  then have "snd (emitError msg s) =
      s\<lparr>emitted := emitted s @ [EError msg], errorListeners := errorListeners s\<rparr>"
    by (simp add: emitError_def emit_def Let_def)
  then show ?thesis by blast
next
  case False
  let ?s1 = "emit (EError msg) s"
  obtain L where "snd (callListeners (errorListeners ?s1) ?s1) = ?s1\<lparr>errorListeners := L\<rparr>"
    using callListeners_state by blast
  then have "snd (emitError msg s) = s\<lparr>emitted := emitted s @ [EError msg], errorListeners := L\<rparr>"
    using False by (simp add: emitError_def emit_def Let_def)
  then show ?thesis by blast
qed

lemma emitError_result:
  "fst (emitError msg s) =
     (if errorListeners s = [] then Inl (JsError msg)
      else if \<exists>l \<in> set (errorListeners s). throwing l then Inl ListenerError
      else Inr ())"
  by (simp add: emitError_def emit_def Let_def callListeners_result)

lemma handleConnAck_refused:
  "c \<noteq> 0 \<Longrightarrow>
   handleConnAck (Some c) s =
     emitError (case refusalCodes (Some c) of
                  Some r \<Rightarrow> r
                | None \<Rightarrow> ''Connection refused with code '' @ showNat c)
       (s\<lparr>connecting := False\<rparr>)"
  by (simp add: handleConnAck_def Let_def cong: option.case_cong)

lemma handleConnAck_refused_control:
  assumes "c \<noteq> 0"
  shows "control (snd (handleConnAck (Some c) s)) =
     control (s\<lparr>connecting := False,
                emitted := emitted s @
                  [EError (case refusalCodes (Some c) of
                             Some r \<Rightarrow> r
                           | None \<Rightarrow> ''Connection refused with code '' @ showNat c)]\<rparr>)"
proof -
  let ?reason = "case refusalCodes (Some c) of
                  Some r \<Rightarrow> r
                | None \<Rightarrow> ''Connection refused with code '' @ showNat c"
  obtain L where "snd (emitError ?reason (s\<lparr>connecting := False\<rparr>)) =
      s\<lparr>connecting := False, emitted := emitted s @ [EError ?reason], errorListeners := L\<rparr>"
    using emitError_state [of ?reason "s\<lparr>connecting := False\<rparr>"] by auto
  then show ?thesis
    unfolding handleConnAck_refused [OF assms] by (simp add: control_def)
qed

lemma refusal_code_cases:
  "1 \<le> c \<Longrightarrow> c \<le> 5 \<Longrightarrow> c = 1 \<or> c = 2 \<or> c = 3 \<or> c = 4 \<or> c = (5::nat)"
  by arith

lemma refusalCodes_defined:
  assumes "1 \<le> c" and "c \<le> 5"
  shows "refusalCodes (Some c) \<noteq> None"
  using refusal_code_cases [OF assms] by (auto simp: refusalCodes_def)

lemma refusalCodes_distinct:
  assumes "1 \<le> c" "c \<le> 5" "1 \<le> d" "d \<le> 5" "c \<noteq> d"
  shows "refusalCodes (Some c) \<noteq> refusalCodes (Some d)"
  using refusal_code_cases [OF assms(1,2)] refusal_code_cases [OF assms(3,4)] assms(5)
  by (elim disjE) (simp_all add: refusalCodes_def)

lemma subscribe_oversize:
  assumes "connected s" and "ws s \<noteq> None" and "65535 < length t"
  shows "subscribe t q s = (Inl RangeError, s\<lparr>lastPacketId := (lastPacketId s + 1) mod 65536\<rparr>)"
  using assms
  by (auto simp: subscribe_def getNextPacketId_def Let_def buildSubscribePacket_throws)

lemma subscribeFrames_mod: "subscribeFrames (l mod 65536) ts = subscribeFrames l ts"
proof (cases ts)
  case Nil
  then show ?thesis by simp
next
  case (Cons t ts')
  have "(l mod 65536 + 1) mod 65536 = (l + 1) mod 65536" by (rule mod_add_left_eq)
  then show ?thesis using Cons by simp
qed

lemma subscribeFrames_enumerate:
  "subscribeFrames ((l + k) mod 65536) ts =
     concat (map (\<lambda>(i, t). if length t \<le> 65535
                           then [subscribeFrame ((l + 1 + i) mod 65536) t] else [])
               (enumerate k ts))"
proof (induction ts arbitrary: k)
  case Nil
  then show ?case by simp
next
  case (Cons t ts)
  have "((l + k) mod 65536 + 1) mod 65536 = (l + k + 1) mod 65536" by (rule mod_add_left_eq)
  then have m: "((l + k) mod 65536 + 1) mod 65536 = (l + 1 + k) mod 65536"
    and m': "((l + k) mod 65536 + 1) mod 65536 = (l + Suc k) mod 65536"
    by (simp_all add: add.commute add.left_commute)
  have "(l + 1 + k) mod 65536 < (65536::nat)" by (rule mod_less_divisor) simp
  then have n: "(l + 1 + k) mod 65536 \<le> (65535::nat)" by linarith
  have first: "(case buildSubscribePacket ((l + 1 + k) mod 65536) t 1 of
                  Inl e \<Rightarrow> [] | Inr f \<Rightarrow> [f]) =
      (if length t \<le> 65535 then [subscribeFrame ((l + 1 + k) mod 65536) t] else [])"
  proof (cases "length t \<le> 65535")
    case True
    then show ?thesis using buildSubscribePacket_subscribeFrame [OF True n] by simp
  next
    case False
    then have "65535 < length t" by simp
    then show ?thesis using False by (simp add: buildSubscribePacket_throws)
  qed
  have "subscribeFrames ((l + k) mod 65536) (t # ts) =
      (case buildSubscribePacket ((l + 1 + k) mod 65536) t 1 of Inl e \<Rightarrow> [] | Inr f \<Rightarrow> [f]) @
      subscribeFrames ((l + Suc k) mod 65536) ts"
    unfolding subscribeFrames.simps m' [symmetric] m [symmetric] by (simp only: add.commute)
  then show ?case
    unfolding first Cons.IH [of "Suc k"] by simp
qed

lemma subscribeFrames_listed:
  "subscribeFrames l ts =
     concat (map (\<lambda>(i, t). if length t \<le> 65535
                           then [subscribeFrame ((l + 1 + i) mod 65536) t] else [])
               (enumerate 0 ts))"
  using subscribeFrames_enumerate [of l 0 ts] subscribeFrames_mod [of l ts] by simp

lemma handleConnAck_refused_state:
  assumes "c \<noteq> 0"
  shows "\<exists>L. snd (handleConnAck (Some c) s) =
     s\<lparr>connecting := False,
       emitted := emitted s @
         [EError (case refusalCodes (Some c) of
                    Some r \<Rightarrow> r
                  | None \<Rightarrow> ''Connection refused with code '' @ showNat c)],
       errorListeners := L\<rparr>"
proof -
  let ?reason = "case refusalCodes (Some c) of
                  Some r \<Rightarrow> r
                | None \<Rightarrow> ''Connection refused with code '' @ showNat c"
  obtain L where "snd (emitError ?reason (s\<lparr>connecting := False\<rparr>)) =
      s\<lparr>connecting := False, emitted := emitted s @ [EError ?reason], errorListeners := L\<rparr>"
    using emitError_state [of ?reason "s\<lparr>connecting := False\<rparr>"] by auto
  then show ?thesis
    unfolding handleConnAck_refused [OF assms] by blast
qed

lemma refusalCodes_undefined: "5 < c \<Longrightarrow> refusalCodes (Some c) = None"
  by (simp add: refusalCodes_def)

text \<open>
  C9, as amended. Return code 0 on an open socket, the topics queued being at most 65535
  bytes long: the client is connected, the attempt counter is 0, the keep-alive timer
  runs, the queue has been flushed and \<open>connect\<close> is emitted last. Before the flush one
  SUBSCRIBE frame has been sent for each topic of the fixed list that fits the length
  field of the frame, in the order of the list and with consecutive packet ids: twelve
  frames when the user id is at most 65526 bytes long. A subscription that throws only
  uses up its packet id: the loop continues with the next topic. The frames of the flush
  follow, one PUBLISH per queued message.

  Every nonzero return code clears \<open>connecting\<close> and passes one \<open>error\<close> to \<open>emit\<close>; for the
  codes 1 to 5 its text is the entry of the table, the five entries are pairwise
  different, and the texts of code 2 and code 5 are as listed. The handler returns
  normally exactly when a listener of \<open>error\<close> is registered and none of the listeners
  throws. With no listener registered, \<open>emit\<close> throws the error and so does the handler;
  what a listener throws leaves the handler as well.
\<close>

theorem handleConnAck_outcomes:
  "(ws s \<noteq> None \<and> (\<forall>m \<in> set (messageQueue s). length (topic m) \<le> 65535) \<longrightarrow>
      (\<exists>s' subs pubs. handleConnAck (Some 0) s = (Inr (), s')
         \<and> connected s' \<and> \<not> connecting s' \<and> reconnectAttempts s' = 0
         \<and> keepAliveTimer s' = Some 60000
         \<and> emitted s' = emitted s @ [EConnect]
         \<and> messageQueue s' = []
         \<and> sent s' = sent s @ subs @ pubs
         \<and> subs =
             concat (map (\<lambda>(i, t). if length t \<le> 65535
                                   then [subscribeFrame ((lastPacketId s + 1 + i) mod 65536) t]
                                   else [])
                       (enumerate 0 (topics (userId s))))
         \<and> (length (userId s) \<le> 65526 \<longrightarrow>
               length subs = 12
             \<and> (\<forall>i < 12. subs ! i =
                   subscribeFrame ((lastPacketId s + 1 + i) mod 65536) (topics (userId s) ! i)))
         \<and> length pubs = length (messageQueue s)
         \<and> (\<forall>i < length (messageQueue s).
               pubs ! i =
                 publishFrame (messageQueue s ! i)
                   (if 0 < qos (messageQueue s ! i)
                    then Some (((lastPacketId s + 12) mod 65536 +
                                length (filter (\<lambda>m. 0 < qos m) (take (Suc i) (messageQueue s))))
                               mod 65536)
                    else None))))
   \<and> topics (userId s) =
       [''/t_ms'', ''/t_rtc'', ''/t_p'', ''/t_tn'', ''/t_graphql'', ''/t_messaging_events'',
        ''mqtt_c2b_'' @ userId s,
        ''/t_sb'', ''/t_admin_text'', ''/t_presence'', ''/t_msg_body'', ''/t_delta'']
   \<and> (\<forall>t ts. connected s \<and> ws s \<noteq> None \<and> 65535 < length t \<longrightarrow>
         subscribeLoop (t # ts) s =
           subscribeLoop ts (s\<lparr>lastPacketId := (lastPacketId s + 1) mod 65536\<rparr>))
   \<and> (\<forall>c. c \<noteq> 0 \<longrightarrow>
         (\<exists>reason.
              emitted (snd (handleConnAck (Some c) s)) = emitted s @ [EError reason]
            \<and> \<not> connecting (snd (handleConnAck (Some c) s))
            \<and> connected (snd (handleConnAck (Some c) s)) = connected s
            \<and> reconnectAttempts (snd (handleConnAck (Some c) s)) = reconnectAttempts s
            \<and> sent (snd (handleConnAck (Some c) s)) = sent s
            \<and> (1 \<le> c \<and> c \<le> 5 \<longrightarrow> refusalCodes (Some c) = Some reason)
            \<and> (5 < c \<longrightarrow> reason = ''Connection refused with code '' @ showNat c)
            \<and> fst (handleConnAck (Some c) s) =
                (if errorListeners s = [] then Inl (JsError reason)
                 else if \<exists>l \<in> set (errorListeners s). throwing l then Inl ListenerError
                 else Inr ())))
   \<and> (\<forall>c d. 1 \<le> c \<and> c \<le> 5 \<and> 1 \<le> d \<and> d \<le> 5 \<and> c \<noteq> d \<longrightarrow>
         refusalCodes (Some c) \<noteq> refusalCodes (Some d))
   \<and> refusalCodes (Some 2) = Some ''Connection Refused - Identifier rejected''
   \<and> refusalCodes (Some 5) = Some ''Connection Refused - Not authorized (bad cookies)''
   \<and> refusalCodes (Some 1) = Some ''Connection Refused - Unacceptable protocol version''
   \<and> refusalCodes (Some 3) = Some ''Connection Refused - Server unavailable''
   \<and> refusalCodes (Some 4) = Some ''Connection Refused - Bad user name or password''"
proof (intro conjI)
  show "ws s \<noteq> None \<and> (\<forall>m \<in> set (messageQueue s). length (topic m) \<le> 65535) \<longrightarrow>
      (\<exists>s' subs pubs. handleConnAck (Some 0) s = (Inr (), s')
         \<and> connected s' \<and> \<not> connecting s' \<and> reconnectAttempts s' = 0
         \<and> keepAliveTimer s' = Some 60000
         \<and> emitted s' = emitted s @ [EConnect]
         \<and> messageQueue s' = []
         \<and> sent s' = sent s @ subs @ pubs
         \<and> subs =
             concat (map (\<lambda>(i, t). if length t \<le> 65535
                                   then [subscribeFrame ((lastPacketId s + 1 + i) mod 65536) t]
                                   else [])
                       (enumerate 0 (topics (userId s))))
         \<and> (length (userId s) \<le> 65526 \<longrightarrow>
               length subs = 12
             \<and> (\<forall>i < 12. subs ! i =
                   subscribeFrame ((lastPacketId s + 1 + i) mod 65536) (topics (userId s) ! i)))
         \<and> length pubs = length (messageQueue s)
         \<and> (\<forall>i < length (messageQueue s).
               pubs ! i =
                 publishFrame (messageQueue s ! i)
                   (if 0 < qos (messageQueue s ! i)
                    then Some (((lastPacketId s + 12) mod 65536 +
                                length (filter (\<lambda>m. 0 < qos m) (take (Suc i) (messageQueue s))))
                               mod 65536)
                    else None)))"
  proof
    assume a: "ws s \<noteq> None \<and> (\<forall>m \<in> set (messageQueue s). length (topic m) \<le> 65535)"
    then have bound: "\<forall>m \<in> set (messageQueue s). length (topic m) \<le> 65535" by simp
    let ?subs = "subscribeFrames (lastPacketId s) (topics (userId s))"
    let ?pubs = "publishFrames ((lastPacketId s + 12) mod 65536) (messageQueue s)"
    from handleConnAck_success [of s] a
    obtain s' where s': "handleConnAck (Some 0) s = (Inr (), s')" "messageQueue s' = []"
      "sent s' = sent s @ ?subs @ ?pubs"
      "length ?pubs = length (messageQueue s)"
      "control s' =
         control (s\<lparr>connected := True, connecting := False, reconnectAttempts := 0,
                    keepAliveTimer := Some 60000, emitted := emitted s @ [EConnect]\<rparr>)"
      by blast
    have ctl: "connected s'" "\<not> connecting s'" "reconnectAttempts s' = 0"
      "keepAliveTimer s' = Some 60000" "emitted s' = emitted s @ [EConnect]"
      using s'(5) by (simp_all add: control_def keepalive_def)
    have listed: "?subs =
        concat (map (\<lambda>(i, t). if length t \<le> 65535
                              then [subscribeFrame ((lastPacketId s + 1 + i) mod 65536) t]
                              else [])
                  (enumerate 0 (topics (userId s))))"
      by (rule subscribeFrames_listed)
    have subs: "length (userId s) \<le> 65526 \<longrightarrow>
        length ?subs = 12
      \<and> (\<forall>i < 12. ?subs ! i =
            subscribeFrame ((lastPacketId s + 1 + i) mod 65536) (topics (userId s) ! i))"
    proof
      assume "length (userId s) \<le> 65526"
      then have b: "\<forall>t \<in> set (topics (userId s)). length t \<le> 65535" by (rule topics_bounded)
      have "length ?subs = 12"
        using length_subscribeFrames [OF b] by (simp add: topics_length)
      moreover have "\<forall>i < 12. ?subs ! i =
            subscribeFrame ((lastPacketId s + 1 + i) mod 65536) (topics (userId s) ! i)"
        using subscribeFrames_nth_frame [OF b] by (simp add: topics_length)
      ultimately show "length ?subs = 12
      \<and> (\<forall>i < 12. ?subs ! i =
            subscribeFrame ((lastPacketId s + 1 + i) mod 65536) (topics (userId s) ! i))"
        by (rule conjI)
    qed
    have nth: "\<forall>i < length (messageQueue s).
        ?pubs ! i =
          publishFrame (messageQueue s ! i)
            (if 0 < qos (messageQueue s ! i)
             then Some (((lastPacketId s + 12) mod 65536 +
                         length (filter (\<lambda>m. 0 < qos m) (take (Suc i) (messageQueue s))))
                        mod 65536)
             else None)"
      using publishFrames_nth_frame [OF bound] by blast
    show "\<exists>s' subs pubs. handleConnAck (Some 0) s = (Inr (), s')
         \<and> connected s' \<and> \<not> connecting s' \<and> reconnectAttempts s' = 0
         \<and> keepAliveTimer s' = Some 60000
         \<and> emitted s' = emitted s @ [EConnect]
         \<and> messageQueue s' = []
         \<and> sent s' = sent s @ subs @ pubs
         \<and> subs =
             concat (map (\<lambda>(i, t). if length t \<le> 65535
                                   then [subscribeFrame ((lastPacketId s + 1 + i) mod 65536) t]
                                   else [])
                       (enumerate 0 (topics (userId s))))
         \<and> (length (userId s) \<le> 65526 \<longrightarrow>
               length subs = 12
             \<and> (\<forall>i < 12. subs ! i =
                   subscribeFrame ((lastPacketId s + 1 + i) mod 65536) (topics (userId s) ! i)))
         \<and> length pubs = length (messageQueue s)
         \<and> (\<forall>i < length (messageQueue s).
               pubs ! i =
                 publishFrame (messageQueue s ! i)
                   (if 0 < qos (messageQueue s ! i)
                    then Some (((lastPacketId s + 12) mod 65536 +
                                length (filter (\<lambda>m. 0 < qos m) (take (Suc i) (messageQueue s))))
                               mod 65536)
                    else None))"
      apply (rule exI [of _ s'])
      apply (rule exI [of _ ?subs])
      apply (rule exI [of _ ?pubs])
      using s'(1,2,3,4) ctl listed subs nth
      apply (intro conjI)
                 apply assumption+
      done
  qed
next
  show "topics (userId s) =
       [''/t_ms'', ''/t_rtc'', ''/t_p'', ''/t_tn'', ''/t_graphql'', ''/t_messaging_events'',
        ''mqtt_c2b_'' @ userId s,
        ''/t_sb'', ''/t_admin_text'', ''/t_presence'', ''/t_msg_body'', ''/t_delta'']"
    by (simp add: topics_def)
next
  show "\<forall>t ts. connected s \<and> ws s \<noteq> None \<and> 65535 < length t \<longrightarrow>
         subscribeLoop (t # ts) s =
           subscribeLoop ts (s\<lparr>lastPacketId := (lastPacketId s + 1) mod 65536\<rparr>)"
    by (simp add: subscribe_oversize)
next
  show "\<forall>c. c \<noteq> 0 \<longrightarrow>
         (\<exists>reason.
              emitted (snd (handleConnAck (Some c) s)) = emitted s @ [EError reason]
            \<and> \<not> connecting (snd (handleConnAck (Some c) s))
            \<and> connected (snd (handleConnAck (Some c) s)) = connected s
            \<and> reconnectAttempts (snd (handleConnAck (Some c) s)) = reconnectAttempts s
            \<and> sent (snd (handleConnAck (Some c) s)) = sent s
            \<and> (1 \<le> c \<and> c \<le> 5 \<longrightarrow> refusalCodes (Some c) = Some reason)
            \<and> (5 < c \<longrightarrow> reason = ''Connection refused with code '' @ showNat c)
            \<and> fst (handleConnAck (Some c) s) =
                (if errorListeners s = [] then Inl (JsError reason)
                 else if \<exists>l \<in> set (errorListeners s). throwing l then Inl ListenerError
                 else Inr ()))"
  proof (intro allI impI)
    fix c :: nat assume c: "c \<noteq> 0"
    let ?reason = "case refusalCodes (Some c) of
                     Some r \<Rightarrow> r
                   | None \<Rightarrow> ''Connection refused with code '' @ showNat c"
    let ?r = "handleConnAck (Some c) s"
    obtain L where st: "snd ?r =
        s\<lparr>connecting := False, emitted := emitted s @ [EError ?reason], errorListeners := L\<rparr>"
      using handleConnAck_refused_state [OF c, of s] by blast
    have f: "emitted (snd ?r) = emitted s @ [EError ?reason]" "\<not> connecting (snd ?r)"
      "connected (snd ?r) = connected s" "reconnectAttempts (snd ?r) = reconnectAttempts s"
      "sent (snd ?r) = sent s"
      unfolding st by simp_all
    have t: "1 \<le> c \<and> c \<le> 5 \<longrightarrow> refusalCodes (Some c) = Some ?reason"
      using refusalCodes_defined [of c] by (cases "refusalCodes (Some c)") auto
    have o: "5 < c \<longrightarrow> ?reason = ''Connection refused with code '' @ showNat c"
      using refusalCodes_undefined [of c] by simp
    have r: "fst ?r =
        (if errorListeners s = [] then Inl (JsError ?reason)
         else if \<exists>l \<in> set (errorListeners s). throwing l then Inl ListenerError
         else Inr ())"
      unfolding handleConnAck_refused [OF c] emitError_result by simp
    show "\<exists>reason.
              emitted (snd ?r) = emitted s @ [EError reason]
            \<and> \<not> connecting (snd ?r)
            \<and> connected (snd ?r) = connected s
            \<and> reconnectAttempts (snd ?r) = reconnectAttempts s
            \<and> sent (snd ?r) = sent s
            \<and> (1 \<le> c \<and> c \<le> 5 \<longrightarrow> refusalCodes (Some c) = Some reason)
            \<and> (5 < c \<longrightarrow> reason = ''Connection refused with code '' @ showNat c)
            \<and> fst ?r =
                (if errorListeners s = [] then Inl (JsError reason)
                 else if \<exists>l \<in> set (errorListeners s). throwing l then Inl ListenerError
                 else Inr ())"
      using f t o r by blast
  qed
next
  show "\<forall>c d. 1 \<le> c \<and> c \<le> 5 \<and> 1 \<le> d \<and> d \<le> 5 \<and> c \<noteq> d \<longrightarrow>
         refusalCodes (Some c) \<noteq> refusalCodes (Some d)"
    using refusalCodes_distinct by blast
next
  show "refusalCodes (Some 2) = Some ''Connection Refused - Identifier rejected''"
    by (simp add: refusalCodes_def)
next
  show "refusalCodes (Some 5) = Some ''Connection Refused - Not authorized (bad cookies)''"
    by (simp add: refusalCodes_def)
next
  show "refusalCodes (Some 1) = Some ''Connection Refused - Unacceptable protocol version''"
    by (simp add: refusalCodes_def)
next
  show "refusalCodes (Some 3) = Some ''Connection Refused - Server unavailable''"
    by (simp add: refusalCodes_def)
next
  show "refusalCodes (Some 4) = Some ''Connection Refused - Bad user name or password''"
    by (simp add: refusalCodes_def)
qed

theorem handleConnAck_outcomes_witness:
  "ws (connect (newClient ''100'')) \<noteq> None
   \<and> errorListeners (connect (newClient ''100'')) = [OnError]
   \<and> (\<exists>s'. handleConnAck (Some 0) (connect (newClient ''100'')) = (Inr (), s')
          \<and> connected s' \<and> reconnectAttempts s' = 0 \<and> emitted s' = [EConnect]
          \<and> length (sent s') = 12
          \<and> sent s' ! 0 = [130, 10, 0, 1, 0, 5, 47, 116, 95, 109, 115, 1]
          \<and> sent s' ! 6 =
              [130, 17, 0, 7, 0, 12, 109, 113, 116, 116, 95, 99, 50, 98, 95, 49, 48, 48, 1])
   \<and> fst (handleConnAck (Some 5) (connect (newClient ''100''))) = Inr ()
   \<and> emitted (snd (handleConnAck (Some 5) (connect (newClient ''100'')))) =
       [EError ''Connection Refused - Not authorized (bad cookies)'']
   \<and> \<not> connecting (snd (handleConnAck (Some 5) (connect (newClient ''100''))))"
proof -
  let ?s = "connect (newClient ''100'')"
  note t = handleConnAck_outcomes [of ?s]
  have f: "ws ?s \<noteq> None" "messageQueue ?s = []" "sent ?s = []" "emitted ?s = []"
    "length (userId ?s) \<le> 65526" "errorListeners ?s = [OnError]" "lastPacketId ?s = 0"
    "userId ?s = ''100''"
    by (simp_all add: connect_def newClient_def)
  have h: "ws ?s \<noteq> None \<and> (\<forall>m \<in> set (messageQueue ?s). length (topic m) \<le> 65535)"
    using f by simp
  from t [THEN conjunct1, rule_format, OF h]
  obtain s' subs pubs where s': "handleConnAck (Some 0) ?s = (Inr (), s')"
    "connected s'" "reconnectAttempts s' = 0" "emitted s' = emitted ?s @ [EConnect]"
    "sent s' = sent ?s @ subs @ pubs" "length pubs = length (messageQueue ?s)"
    "length (userId ?s) \<le> 65526 \<longrightarrow> length subs = 12
       \<and> (\<forall>i < 12. subs ! i =
             subscribeFrame ((lastPacketId ?s + 1 + i) mod 65536) (topics (userId ?s) ! i))"
    by (elim exE conjE)
  have p: "pubs = []" using s'(6) f(2) by simp
  have sent: "sent s' = subs" using s'(5) p f(3) by simp
  have len: "length subs = 12"
    and nth: "\<forall>i < 12. subs ! i =
             subscribeFrame ((lastPacketId ?s + 1 + i) mod 65536) (topics (userId ?s) ! i)"
    using s'(7) f(5) by simp_all
  have i0: "(0::nat) < 12" and i6: "(6::nat) < 12" by simp_all
  have n0: "subs ! 0 = [130, 10, 0, 1, 0, 5, 47, 116, 95, 109, 115, 1]"
    using nth [rule_format, OF i0, unfolded f(7,8)]
    by (simp add: subscribeFrame_def topics_def encodeRemainingLength_rec)
  have n6: "subs ! 6 =
      [130, 17, 0, 7, 0, 12, 109, 113, 116, 116, 95, 99, 50, 98, 95, 49, 48, 48, 1]"
    using nth [rule_format, OF i6, unfolded f(7,8)]
    by (simp add: subscribeFrame_def topics_def encodeRemainingLength_rec)
  have a: "\<exists>s'. handleConnAck (Some 0) ?s = (Inr (), s')
          \<and> connected s' \<and> reconnectAttempts s' = 0 \<and> emitted s' = [EConnect]
          \<and> length (sent s') = 12
          \<and> sent s' ! 0 = [130, 10, 0, 1, 0, 5, 47, 116, 95, 109, 115, 1]
          \<and> sent s' ! 6 =
              [130, 17, 0, 7, 0, 12, 109, 113, 116, 116, 95, 99, 50, 98, 95, 49, 48, 48, 1]"
  proof -
    have "length (sent s') = 12"
      and "sent s' ! 0 = [130, 10, 0, 1, 0, 5, 47, 116, 95, 109, 115, 1]"
      and "sent s' ! 6 =
              [130, 17, 0, 7, 0, 12, 109, 113, 116, 116, 95, 99, 50, 98, 95, 49, 48, 48, 1]"
      and "emitted s' = [EConnect]"
      using len n0 n6 s'(4) f(4) unfolding sent by simp_all
    with s'(1,2,3) show ?thesis by blast
  qed
  have five: "(5::nat) \<noteq> 0" by simp
  from t [THEN conjunct2, THEN conjunct2, THEN conjunct2, THEN conjunct1, rule_format, OF five]
  obtain reason where r:
    "emitted (snd (handleConnAck (Some 5) ?s)) = emitted ?s @ [EError reason]"
    "\<not> connecting (snd (handleConnAck (Some 5) ?s))"
    "1 \<le> (5::nat) \<and> (5::nat) \<le> 5 \<longrightarrow> refusalCodes (Some 5) = Some reason"
    "fst (handleConnAck (Some 5) ?s) =
       (if errorListeners ?s = [] then Inl (JsError reason)
        else if \<exists>l \<in> set (errorListeners ?s). throwing l then Inl ListenerError
        else Inr ())"
    by (elim exE conjE)
  have "refusalCodes (Some 5) = Some ''Connection Refused - Not authorized (bad cookies)''"
    using t by (elim conjE)
  with r(3) have reason: "reason = ''Connection Refused - Not authorized (bad cookies)''"
    by simp
  have b1: "fst (handleConnAck (Some 5) ?s) = Inr ()"
    using r(4) unfolding f(6) by (simp add: throwing_def)
  have b2: "emitted (snd (handleConnAck (Some 5) ?s)) =
       [EError ''Connection Refused - Not authorized (bad cookies)'']"
    using r(1) reason f(4) by simp
  show ?thesis using f(1,6) a b1 b2 r(2) by (intro conjI)
qed

text \<open>
  C9, as stated, fails. A refused CONNACK makes \<open>handleConnAck\<close> throw when the listener
  that the facade registers, placed before the one of \<open>connect()\<close>, throws, and when no
  listener of \<open>error\<close> is registered at all. And return code 0 with a queued topic of 65536
  bytes connects the client but throws out of the flush: \<open>connect\<close> is not emitted.
\<close>

theorem refused_connack_throws:
  "errorListeners (connect (addListener (On Throws) (newClient ''100''))) = [On Throws, OnError]
   \<and> fst (handleConnAck (Some 5) (connect (addListener (On Throws) (newClient ''100'')))) =
       Inl ListenerError
   \<and> errorListeners (newClient ''100'') = []
   \<and> fst (handleConnAck (Some 5) (newClient ''100'')) =
       Inl (JsError ''Connection Refused - Not authorized (bad cookies)'')
   \<and> (let u = connect
                 (snd (publish longTopic (AString ''x'') 0 False (newClient ''100'')));
            r = handleConnAck (Some 0) u
        in ws u = Some 0 \<and> fst r = Inl RangeError \<and> connected (snd r) \<and> emitted (snd r) = [])"
proof (intro conjI)
  let ?s = "connect (addListener (On Throws) (newClient ''100''))"
  have five: "(5::nat) \<noteq> 0" by simp
  have code: "refusalCodes (Some 5) = Some ''Connection Refused - Not authorized (bad cookies)''"
    by (simp add: refusalCodes_def)
  show l: "errorListeners ?s = [On Throws, OnError]"
    by (simp add: connect_def addListener_def newClient_def)
  show "fst (handleConnAck (Some 5) ?s) = Inl ListenerError"
    unfolding handleConnAck_refused [OF five] emitError_result
    using l by (simp add: throwing_def)
  show n: "errorListeners (newClient ''100'') = []" by (simp add: newClient_def)
  show "fst (handleConnAck (Some 5) (newClient ''100'')) =
       Inl (JsError ''Connection Refused - Not authorized (bad cookies)'')"
    unfolding handleConnAck_refused [OF five] emitError_result code
    using n by simp
  let ?m = "makeMessage longTopic (AString ''x'') 0 False"
  let ?u = "connect (snd (publish longTopic (AString ''x'') 0 False (newClient ''100'')))"
  have d: "\<not> connected (newClient ''100'') \<or> ws (newClient ''100'') = None"
    by (simp add: newClient_def)
  have u: "messageQueue ?u = [?m]" "ws ?u = Some 0" "emitted ?u = []"
    unfolding publish_queued [OF d] by (simp_all add: connect_def newClient_def)
  have long: "65535 < length (topic ?m)" by (simp add: length_longTopic)
  note h = handleConnAck_overlong [OF u(1) long]
  show "let u = ?u; r = handleConnAck (Some 0) u
        in ws u = Some 0 \<and> fst r = Inl RangeError \<and> connected (snd r) \<and> emitted (snd r) = []"
    unfolding Let_def h(4) using u(2,3) h(1,5) by (intro conjI)
qed

section \<open>What a publish returns\<close>












section \<open>Disconnecting and reconnecting\<close>

lemma disconnect_fields:
  "ws (disconnect s) = None" "\<not> connected (disconnect s)" "\<not> connecting (disconnect s)"
  "reconnectTimer (disconnect s) = None" "keepAliveTimer (disconnect s) = None"
  "reconnectAttempts (disconnect s) = reconnectAttempts s"
  "maxReconnectAttempts (disconnect s) = maxReconnectAttempts s"
  "reconnectDelay (disconnect s) = reconnectDelay s"
  "sockets (disconnect s) = sockets s"
  "emitted (disconnect s) = emitted s @ [EDisconnect None]"
  by (auto simp: disconnect_def stopReconnect_def stopKeepAlive_def sendDisconnect_def
        wsSend_def emit_def Let_def split: option.splits)

lemma disconnect_socket:
  "ws s = Some w \<Longrightarrow>
   sent (disconnect s) = sent s @ [[224, 0]] \<and> wsClosed (disconnect s) = wsClosed s @ [w]"
  by (auto simp: disconnect_def stopReconnect_def stopKeepAlive_def sendDisconnect_def
        wsSend_def emit_def Let_def fromArray_def split: option.splits)

lemma handleClose_schedules:
  assumes "reconnectAttempts s < maxReconnectAttempts s" and "reconnectTimer s = None"
  shows "reconnectTimer (handleClose code reason s) =
           Some (min (reconnectDelay s * (reconnectAttempts s + 1)) 30000)"
    and "reconnectAttempts (handleClose code reason s) = reconnectAttempts s + 1"
    and "\<not> connected (handleClose code reason s)" and "\<not> connecting (handleClose code reason s)"
    and "sockets (handleClose code reason s) = sockets s"
    and "emitted (handleClose code reason s) = emitted s @ [EDisconnect (Some (code, reason))]"
  using assms by (simp_all add: handleClose_def scheduleReconnect_def emit_def Let_def)

lemma handleClose_exhausted:
  assumes "maxReconnectAttempts s \<le> reconnectAttempts s"
  shows "handleClose code reason s =
           s\<lparr>connected := False, connecting := False,
             emitted := emitted s @ [EDisconnect (Some (code, reason))]\<rparr>"
  using assms by (simp add: handleClose_def emit_def Let_def)

lemma reconnectFire_connects:
  assumes "reconnectTimer s = Some d" and "\<not> connected s" and "\<not> connecting s"
  shows "connecting (reconnectFire s)" and "ws (reconnectFire s) = Some (sockets s)"
    and "sockets (reconnectFire s) = sockets s + 1" and "reconnectTimer (reconnectFire s) = None"
    and "reconnectAttempts (reconnectFire s) = reconnectAttempts s"
  using assms by (simp_all add: reconnectFire_def connect_def)

text \<open>
  C2. \<open>disconnect()\<close> cancels both timers, sends DISCONNECT, closes the socket and leaves the
  client neither connected nor connecting. When the close event of that socket is then
  handled, and the attempt counter is below the maximum, \<open>handleClose\<close> schedules a
  reconnect as for any other close; when the timer fires, \<open>connect()\<close> opens a new socket.
\<close>

theorem disconnect_then_close_reconnects:
  assumes "reconnectAttempts s < maxReconnectAttempts s"
  shows "(let s1 = disconnect s;
              s2 = handleClose code reason s1;
              s3 = reconnectFire s2
          in ws s1 = None \<and> \<not> connected s1 \<and> \<not> connecting s1
           \<and> reconnectTimer s1 = None \<and> keepAliveTimer s1 = None
           \<and> (\<forall>w. ws s = Some w \<longrightarrow>
                 sent s1 = sent s @ [[224, 0]] \<and> wsClosed s1 = wsClosed s @ [w])
           \<and> reconnectTimer s2 =
               Some (min (reconnectDelay s * (reconnectAttempts s + 1)) 30000)
           \<and> reconnectAttempts s2 = reconnectAttempts s + 1
           \<and> connecting s3 \<and> ws s3 = Some (sockets s) \<and> sockets s3 = sockets s + 1)"
proof -
  let ?s1 = "disconnect s"
  let ?s2 = "handleClose code reason ?s1"
  note d = disconnect_fields [of s]
  have a: "reconnectAttempts ?s1 < maxReconnectAttempts ?s1" using assms d by simp
  note c = handleClose_schedules [OF a d(4), of code reason]
  note f = reconnectFire_connects [OF c(1) c(3) c(4)]
  show ?thesis
    unfolding Let_def using d c f disconnect_socket [of s] by simp
qed

theorem disconnect_then_close_reconnects_witness:
  "reconnectAttempts ((newClient ''100'')\<lparr>ws := Some 0, connected := True, sockets := 1\<rparr>)
     < maxReconnectAttempts ((newClient ''100'')\<lparr>ws := Some 0, connected := True, sockets := 1\<rparr>)
   \<and> reconnectTimer
        (handleClose 1000 []
           (disconnect ((newClient ''100'')\<lparr>ws := Some 0, connected := True, sockets := 1\<rparr>))) =
       Some 5000
   \<and> ws (reconnectFire
        (handleClose 1000 []
           (disconnect ((newClient ''100'')\<lparr>ws := Some 0, connected := True, sockets := 1\<rparr>)))) =
       Some 1
   \<and> connecting (reconnectFire
        (handleClose 1000 []
           (disconnect ((newClient ''100'')\<lparr>ws := Some 0, connected := True, sockets := 1\<rparr>))))"
proof -
  let ?s = "(newClient ''100'')\<lparr>ws := Some 0, connected := True, sockets := 1\<rparr>"
  have h: "reconnectAttempts ?s < maxReconnectAttempts ?s" by (simp add: newClient_def)
  have f: "reconnectDelay ?s = 5000" "reconnectAttempts ?s = 0" "sockets ?s = 1"
    by (simp_all add: newClient_def reconnectPeriod_def)
  from disconnect_then_close_reconnects [OF h, of 1000 "[]", unfolded Let_def f]
  show ?thesis using h by simp
qed

text \<open>
  C6, as amended. With the attempt counter at the maximum, a close of the transport
  schedules no reconnect. A manual \<open>connect()\<close> then starts a fresh attempt on a new
  socket and leaves the counter where it is: a close during that attempt schedules no
  reconnect either, and a refused CONNACK leaves the counter unchanged. The counter is
  reset to 0 by the CONNACK with return code 0.
\<close>

theorem reconnect_budget_exhausted:
  assumes "maxReconnectAttempts s \<le> reconnectAttempts s"
  shows "(let s1 = handleClose code reason s;
              s2 = connect s1
          in reconnectTimer s1 = reconnectTimer s
           \<and> reconnectAttempts s1 = reconnectAttempts s
           \<and> \<not> connected s1 \<and> \<not> connecting s1
           \<and> connecting s2 \<and> ws s2 = Some (sockets s) \<and> sockets s2 = sockets s + 1
           \<and> reconnectAttempts s2 = reconnectAttempts s
           \<and> reconnectTimer (handleClose code' reason' s2) = reconnectTimer s
           \<and> reconnectAttempts (snd (handleConnAck (Some 0) s2)) = 0
           \<and> (\<forall>c. c \<noteq> 0 \<longrightarrow>
                 reconnectAttempts (snd (handleConnAck (Some c) s2)) = reconnectAttempts s))"
proof -
  let ?s1 = "handleClose code reason s"
  let ?s2 = "connect ?s1"
  have s1: "?s1 = s\<lparr>connected := False, connecting := False,
             emitted := emitted s @ [EDisconnect (Some (code, reason))]\<rparr>"
    using assms by (rule handleClose_exhausted)
  have s2: "?s2 = s\<lparr>connected := False, connecting := True,
             emitted := emitted s @ [EDisconnect (Some (code, reason))],
             ws := Some (sockets s), sockets := sockets s + 1,
             errorListeners := errorListeners s @ [OnError]\<rparr>"
    unfolding s1 by (simp add: connect_def)
  have ex2: "maxReconnectAttempts ?s2 \<le> reconnectAttempts ?s2"
    unfolding s2 using assms by simp
  have c: "reconnectTimer (handleClose code' reason' ?s2) = reconnectTimer s"
    unfolding handleClose_exhausted [OF ex2] unfolding s2 by simp
  have ok: "reconnectAttempts (snd (handleConnAck (Some 0) ?s2)) = 0"
    using handleConnAck_success_control [of ?s2] by (auto simp: control_def)
  have a2: "reconnectAttempts ?s2 = reconnectAttempts s"
    unfolding s2 by simp
  have no: "\<forall>c. c \<noteq> 0 \<longrightarrow>
      reconnectAttempts (snd (handleConnAck (Some c) ?s2)) = reconnectAttempts s"
  proof (intro allI impI)
    fix c :: nat assume "c \<noteq> 0"
    from handleConnAck_refused_control [OF this, of ?s2]
    have "reconnectAttempts (snd (handleConnAck (Some c) ?s2)) = reconnectAttempts ?s2"
      by (simp add: control_def)
    with a2 show "reconnectAttempts (snd (handleConnAck (Some c) ?s2)) = reconnectAttempts s"
      by simp
  qed
  have f1: "reconnectTimer ?s1 = reconnectTimer s" "reconnectAttempts ?s1 = reconnectAttempts s"
    "\<not> connected ?s1" "\<not> connecting ?s1"
    unfolding s1 by simp_all
  have f2: "connecting ?s2" "ws ?s2 = Some (sockets s)" "sockets ?s2 = sockets s + 1"
    "reconnectAttempts ?s2 = reconnectAttempts s"
    unfolding s2 by simp_all
  show ?thesis
    unfolding Let_def using f1 f2 c ok no by (intro conjI)
qed

lemma reconnect_round:
  assumes "reconnectAttempts s < maxReconnectAttempts s" and "reconnectTimer s = None"
  shows "reconnectAttempts (reconnectFire (handleClose code reason s)) = reconnectAttempts s + 1"
    and "maxReconnectAttempts (reconnectFire (handleClose code reason s)) = maxReconnectAttempts s"
    and "reconnectTimer (reconnectFire (handleClose code reason s)) = None"
    and "sockets (reconnectFire (handleClose code reason s)) = sockets s + 1"
  using assms
  by (simp_all add: handleClose_def scheduleReconnect_def emit_def Let_def reconnectFire_def
        connect_def)

lemma reconnect_rounds:
  "n \<le> 10 \<Longrightarrow>
   reconnectAttempts (((\<lambda>s. reconnectFire (handleClose 1006 [] s)) ^^ n)
                        (connect (newClient uid))) = n
   \<and> maxReconnectAttempts (((\<lambda>s. reconnectFire (handleClose 1006 [] s)) ^^ n)
                        (connect (newClient uid))) = 10
   \<and> reconnectTimer (((\<lambda>s. reconnectFire (handleClose 1006 [] s)) ^^ n)
                        (connect (newClient uid))) = None
   \<and> sockets (((\<lambda>s. reconnectFire (handleClose 1006 [] s)) ^^ n)
                        (connect (newClient uid))) = n + 1"
proof (induction n)
  case 0
  then show ?case by (simp add: connect_def newClient_def)
next
  case (Suc n)
  let ?s = "((\<lambda>s. reconnectFire (handleClose 1006 [] s)) ^^ n) (connect (newClient uid))"
  from Suc have ih: "reconnectAttempts ?s = n" "maxReconnectAttempts ?s = 10"
    "reconnectTimer ?s = None" "sockets ?s = n + 1"
    by simp_all
  have lt: "reconnectAttempts ?s < maxReconnectAttempts ?s" using ih Suc.prems by simp
  from reconnect_round [OF lt ih(3), of 1006 "[]"] ih
  show ?case by simp
qed

lemma exhaustedClient_fields:
  "reconnectAttempts exhaustedClient = 10" "maxReconnectAttempts exhaustedClient = 10"
  "reconnectTimer exhaustedClient = None" "sockets exhaustedClient = 11"
  using reconnect_rounds [of 10 "''100''"] by (simp_all add: exhaustedClient_def)

theorem reconnect_budget_exhausted_witness:
  "maxReconnectAttempts exhaustedClient \<le> reconnectAttempts exhaustedClient
   \<and> reconnectTimer (handleClose 1006 [] exhaustedClient) = None
   \<and> connecting (connect (handleClose 1006 [] exhaustedClient))
   \<and> ws (connect (handleClose 1006 [] exhaustedClient)) = Some 11
   \<and> reconnectAttempts
        (snd (handleConnAck (Some 0) (connect (handleClose 1006 [] exhaustedClient)))) = 0
   \<and> reconnectAttempts
        (snd (handleConnAck (Some 5) (connect (handleClose 1006 [] exhaustedClient)))) = 10"
proof -
  have e: "maxReconnectAttempts exhaustedClient \<le> reconnectAttempts exhaustedClient"
    by (simp add: exhaustedClient_fields)
  from reconnect_budget_exhausted [OF e, of 1006 "[]" 1006 "[]", unfolded Let_def]
  show ?thesis using e by (simp add: exhaustedClient_fields)
qed

text \<open>
  C6 as stated fails: after ten scheduled reconnects the counter is 10, the next close
  schedules nothing, and the manual \<open>connect()\<close> that follows leaves the counter at 10.
\<close>

theorem connect_keeps_attempt_counter:
  "reconnectAttempts exhaustedClient = 10
   \<and> reconnectTimer (handleClose 1006 [] exhaustedClient) = None
   \<and> reconnectAttempts (connect (handleClose 1006 [] exhaustedClient)) = 10
   \<and> reconnectAttempts (connect (handleClose 1006 [] exhaustedClient)) \<noteq> 0"
proof -
  have e: "maxReconnectAttempts exhaustedClient \<le> reconnectAttempts exhaustedClient"
    by (simp add: exhaustedClient_fields)
  show ?thesis
    unfolding handleClose_exhausted [OF e]
    by (simp add: connect_def exhaustedClient_fields)
qed

section \<open>Thread ids and topic routing\<close>

lemma extractThreadId_truthy: "extractThreadId tk \<noteq> JNull \<Longrightarrow> truthy (extractThreadId tk)"
  by (auto simp: extractThreadId_def split: if_splits)

text \<open>
  On the message, reaction and direct-message paths the thread id of the event is what
  \<open>extractThreadId\<close> returns for the thread key, and no event is produced when that is
  \<open>null\<close>.
\<close>

lemma parseDelta_message_threadId:
  assumes "\<not> nullish d" and "truthy (field d ''messageMetadata'')"
  shows "parseDelta now d = Inr ev \<Longrightarrow>
     (extractThreadId (field (field d ''messageMetadata'') ''threadKey'') = JNull \<longrightarrow> ev = JNull)
   \<and> (extractThreadId (field (field d ''messageMetadata'') ''threadKey'') \<noteq> JNull \<longrightarrow>
        field (field ev ''message'') ''threadId'' =
          extractThreadId (field (field d ''messageMetadata'') ''threadKey''))"
  using assms extractThreadId_truthy [of "field (field d ''messageMetadata'') ''threadKey''"]
  by (auto simp: parseDelta_def Let_def)

lemma parseDelta_reaction_threadId:
  assumes "\<not> nullish d" and "\<not> truthy (field d ''messageMetadata'')"
    and "truthy (field d ''reaction'')"
  shows "parseDelta now d = Inr ev \<Longrightarrow>
     (extractThreadId (field d ''threadKey'') = JNull \<longrightarrow> ev = JNull)
   \<and> (extractThreadId (field d ''threadKey'') \<noteq> JNull \<longrightarrow>
        field ev ''threadId'' = extractThreadId (field d ''threadKey''))"
  using assms extractThreadId_truthy [of "field d ''threadKey''"]
  by (auto simp: parseDelta_def Let_def)

lemma parseDirectDelta_threadId:
  assumes "truthy (field d ''messageMetadata'')"
  shows "(extractThreadId (field (field d ''messageMetadata'') ''threadKey'') = JNull \<longrightarrow>
           parseDirectDelta now d = JNull)
   \<and> (extractThreadId (field (field d ''messageMetadata'') ''threadKey'') \<noteq> JNull \<longrightarrow>
        field (field (parseDirectDelta now d) ''message'') ''threadId'' =
          extractThreadId (field (field d ''messageMetadata'') ''threadKey''))"
  using assms extractThreadId_truthy [of "field (field d ''messageMetadata'') ''threadKey''"]
  by (auto simp: parseDirectDelta_def Let_def)

text \<open>
  Every event parsed from the graphql-delta topic takes its thread id from the
  \<open>threadFbId\<close> field of the thread key alone, with the empty string as fallback.
\<close>

lemma parseGraphQLEvent_threadId:
  assumes "parseGraphQLEvent now d = Inr ev" and "ev \<noteq> JNull"
  shows "\<exists>k. truthy (field d k)
           \<and> field ev ''threadId'' =
               jor (optChain (field (field d k) ''threadKey'') ''threadFbId'') (JStr [])"
  using assms
  by (auto simp: parseGraphQLEvent_def Let_def split: if_splits)

lemma jor_not_null: "jor (optChain tk ''threadFbId'') (JStr []) \<noteq> JNull"
  by (cases "optChain tk ''threadFbId''") (auto simp: jor_def)

lemma parse_nickname_example:
  "parse now ''/t_graphql''
     (Some (JObj [(''deltaNickname'',
        JObj [(''threadKey'', JObj [(''otherUserFbId'', JStr ''42'')]),
              (''actorFbId'', JStr ''9''),
              (''participantId'', JStr ''42''),
              (''nickname'', JStr ''Bo'')])])) =
   JObj [(''type'', JStr ''thread_nickname''),
         (''timestamp'', JNum (of_nat now)),
         (''threadId'', JStr []),
         (''author'', JStr ''9''),
         (''participantId'', JStr ''42''),
         (''nickname'', JStr ''Bo'')]"
  by (simp add: parse_def parseGraphQLEvent_def optChain_def jor_def Let_def)

text \<open>
  C4. For a thread key with only the other-user id, \<open>extractThreadId\<close> gives that id, but
  the nickname event parsed from the graphql-delta topic carries the empty string as
  thread id. For a thread key with neither field, \<open>extractThreadId\<close> gives \<open>null\<close>, but the
  rename event is still produced, again with the empty string as thread id.
\<close>

theorem graphql_threadId_not_extracted:
  "extractThreadId (JObj [(''otherUserFbId'', JStr ''42'')]) = JStr ''42''
   \<and> parse now ''/t_graphql''
       (Some (JObj [(''deltaNickname'',
          JObj [(''threadKey'', JObj [(''otherUserFbId'', JStr ''42'')]),
                (''actorFbId'', JStr ''9''),
                (''participantId'', JStr ''42''),
                (''nickname'', JStr ''Bo'')])])) =
     JObj [(''type'', JStr ''thread_nickname''),
           (''timestamp'', JNum (of_nat now)),
           (''threadId'', JStr []),
           (''author'', JStr ''9''),
           (''participantId'', JStr ''42''),
           (''nickname'', JStr ''Bo'')]
   \<and> extractThreadId (JObj []) = JNull
   \<and> parse now ''/t_graphql''
       (Some (JObj [(''deltaThreadName'',
          JObj [(''threadKey'', JObj []),
                (''actorFbId'', JStr ''9''),
                (''name'', JStr ''Team'')])])) =
     JObj [(''type'', JStr ''thread_rename''),
           (''timestamp'', JNum (of_nat now)),
           (''threadId'', JStr []),
           (''author'', JStr ''9''),
           (''name'', JStr ''Team'')]"
  by (simp add: parse_def parseGraphQLEvent_def optChain_def jor_def Let_def
        extractThreadId_def)

lemma startsWith_personal: "\<not> startsWith (''mqtt_c2b_'' @ uid) ''/mqtt_c2b_''"
  by (simp add: startsWith_def)

lemma parse_personal_topic: "parse now (''mqtt_c2b_'' @ uid) payload' = JNull"
  by (simp add: parse_def startsWith_def split: option.splits)

lemma parse_slash_personal_topic:
  "parse now (''/mqtt_c2b_'' @ uid) payload' = parse now ''/t_ms'' payload'"
  by (simp add: parse_def startsWith_def parseC2BEvent_def split: option.splits)

lemma personal_subscribed: "''mqtt_c2b_'' @ uid \<in> set (topics uid)"
  by (simp add: topics_def)

lemma parse_message_example:
  "parse now ''/t_ms''
     (Some (JObj [(''delta'',
        JObj [(''messageMetadata'',
                 JObj [(''threadKey'', JObj [(''threadFbId'', JStr ''123'')]),
                       (''actorFbId'', JStr ''9''),
                       (''messageId'', JStr ''m1''),
                       (''timestamp'', JNum 1000)]),
              (''body'', JStr ''hi'')])])) =
   JObj [(''type'', JStr ''message''),
         (''timestamp'', JNum (of_nat now)),
         (''message'',
          JObj [(''messageId'', JStr ''m1''),
                (''threadId'', JStr ''123''),
                (''senderId'', JStr ''9''),
                (''body'', JStr ''hi''),
                (''timestamp'', JNum 1000),
                (''attachments'', JArr []),
                (''mentions'', JArr []),
                (''isGroup'', JBool True),
                (''reactions'', JArr []),
                (''isUnread'', JBool True)])]"
  by (simp add: parse_def parseMessageSync_def parseDelta_def extractThreadId_def
        optChain_def jor_def parseAttachments_def parseMentions_def Let_def)

text \<open>
  C5. The personal topic the client subscribes to is \<open>mqtt_c2b_\<close> followed by the user
  id. \<open>parse\<close> returns \<open>null\<close> on that topic for every payload: the prefix it tests starts
  with a slash. Only a topic starting with \<open>/mqtt_c2b_\<close> is parsed as the message-sync
  topic is, and on the message-sync topic the payload shown yields a message event.
\<close>

theorem personal_topic_unrouted:
  "''mqtt_c2b_'' @ uid \<in> set (topics uid)
   \<and> parse now (''mqtt_c2b_'' @ uid) payload' = JNull
   \<and> parse now (''/mqtt_c2b_'' @ uid) payload' = parse now ''/t_ms'' payload'
   \<and> parse now ''/t_ms''
       (Some (JObj [(''delta'',
          JObj [(''messageMetadata'',
                   JObj [(''threadKey'', JObj [(''threadFbId'', JStr ''123'')]),
                         (''actorFbId'', JStr ''9''),
                         (''messageId'', JStr ''m1''),
                         (''timestamp'', JNum 1000)]),
                (''body'', JStr ''hi'')])])) =
     JObj [(''type'', JStr ''message''),
           (''timestamp'', JNum (of_nat now)),
           (''message'',
            JObj [(''messageId'', JStr ''m1''),
                  (''threadId'', JStr ''123''),
                  (''senderId'', JStr ''9''),
                  (''body'', JStr ''hi''),
                  (''timestamp'', JNum 1000),
                  (''attachments'', JArr []),
                  (''mentions'', JArr []),
                  (''isGroup'', JBool True),
                  (''reactions'', JArr []),
                  (''isUnread'', JBool True)])]"
  using personal_subscribed [of uid] parse_personal_topic [of now uid payload']
    parse_slash_personal_topic [of now uid payload'] parse_message_example [of now]
  by (intro conjI)

end
